theory Spec2Isabelle
  imports Complex_Main
begin

section \<open>Python values as the validator sees them\<close>

text \<open>
  The validator of \<^verbatim>\<open>src/lib/validators.py\<close> works on values produced by
  \<^verbatim>\<open>json.load\<close>: \<^verbatim>\<open>None\<close>, \<^verbatim>\<open>bool\<close>, \<^verbatim>\<open>int\<close>, \<^verbatim>\<open>float\<close>, \<^verbatim>\<open>str\<close>,
  \<^verbatim>\<open>list\<close> and \<^verbatim>\<open>dict\<close> with \<^verbatim>\<open>str\<close> keys. Schemas are values of the same
  kind: the code reads them with \<^verbatim>\<open>in\<close>, \<^verbatim>\<open>[...]\<close> and \<^verbatim>\<open>.get\<close>, so a schema
  is modelled as a \<open>json\<close> value too and not as a parsed fragment type.

  A \<^verbatim>\<open>float\<close> keeps only what the validator observes: its type tag and its order
  against other numbers. \<open>Finite q\<close> stands for a double of value \<open>q\<close> (every
  double is a rational; \<open>Finite 0\<close> is \<^verbatim>\<open>0.0\<close>), \<open>NegZero\<close> for \<^verbatim>\<open>-0.0\<close>.
  A \<^verbatim>\<open>str\<close> is a \<open>string\<close> with one \<open>char\<close> per code point (code points
  below 256). A \<^verbatim>\<open>dict\<close> is an association list in insertion order; the lists
  that stand for dictionaries have distinct keys, and a lookup reads the first entry.
\<close>

datatype pyfloat = Finite rat | NegZero | PosInf | NegInf | NaN

datatype json =
    JNull
  | JBool bool
  | JInt int
  | JFloat pyfloat
  | JStr string
  | JArr "json list"
  | JObj "(string \<times> json) list"

text \<open>The exceptions the modelled code can raise.\<close>

datatype py_error = TypeError | AttributeError | KeyError | ReError

type_synonym 'a res = "py_error + 'a"

text \<open>Sequencing: an exception raised by the first computation ends the second.\<close>

definition bindE :: "'a res \<Rightarrow> ('a \<Rightarrow> 'b res) \<Rightarrow> 'b res" where
  "bindE m f = (case m of Inl e \<Rightarrow> Inl e | Inr x \<Rightarrow> f x)"

text \<open>
  What the code takes from Python's runtime and is not modelled here:
  \<^item> \<open>fmt_match\<close>: \<^verbatim>\<open>re.match\<close> of one of the four fixed format patterns of
    \<^verbatim>\<open>_validate_string_format\<close> on a string (these patterns compile, so the call
    returns);
  \<^item> \<open>re_match\<close>: \<^verbatim>\<open>re.match(pattern, s)\<close> for a pattern that holds regular
    expression syntax beyond literal characters, dots, the groups written for
    placeholders and groups left open; it may raise \<^verbatim>\<open>re.error\<close>;
  \<^item> \<open>str_other\<close>: \<^verbatim>\<open>str()\<close> of a float, a list or a dict inside an f-string.
\<close>

datatype fmt_regex = DateTimeRe | EmailRe | UuidRe | UrlRe

record pylib =
  fmt_match :: "fmt_regex \<Rightarrow> string \<Rightarrow> bool"
  re_match :: "string \<Rightarrow> string \<Rightarrow> bool res"
  str_other :: "json \<Rightarrow> string"

subsection \<open>Truth value, \<^verbatim>\<open>isinstance\<close>, numbers\<close>

fun truthy :: "json \<Rightarrow> bool" where
  "truthy JNull = False"
| "truthy (JBool b) = b"
| "truthy (JInt i) = (i \<noteq> 0)"
| "truthy (JFloat f) = (f \<noteq> Finite 0 \<and> f \<noteq> NegZero)"
| "truthy (JStr s) = (s \<noteq> [])"
| "truthy (JArr xs) = (xs \<noteq> [])"
| "truthy (JObj kvs) = (kvs \<noteq> [])"

text \<open>\<^verbatim>\<open>bool\<close> is a subclass of \<^verbatim>\<open>int\<close>: \<^verbatim>\<open>isinstance(True, int)\<close> holds.\<close>

fun is_str :: "json \<Rightarrow> bool" where
  "is_str (JStr s) = True"
| "is_str _ = False"

fun is_bool :: "json \<Rightarrow> bool" where
  "is_bool (JBool b) = True"
| "is_bool _ = False"

fun is_int :: "json \<Rightarrow> bool" where
  "is_int (JBool b) = True"
| "is_int (JInt i) = True"
| "is_int _ = False"

fun is_float :: "json \<Rightarrow> bool" where
  "is_float (JFloat f) = True"
| "is_float _ = False"

fun is_dict :: "json \<Rightarrow> bool" where
  "is_dict (JObj kvs) = True"
| "is_dict _ = False"

text \<open>
  The value of a number for comparisons: Python compares \<^verbatim>\<open>int\<close>, \<^verbatim>\<open>bool\<close> and
  \<^verbatim>\<open>float\<close> by their exact mathematical values; every \<^verbatim>\<open><\<close> and \<^verbatim>\<open>>\<close> with NaN
  is false.
\<close>

datatype numval = NV rat | NVPosInf | NVNegInf | NVNaN

fun num_of :: "json \<Rightarrow> numval option" where
  "num_of (JBool b) = Some (NV (if b then 1 else 0))"
| "num_of (JInt i) = Some (NV (of_int i))"
| "num_of (JFloat (Finite q)) = Some (NV q)"
| "num_of (JFloat NegZero) = Some (NV 0)"
| "num_of (JFloat PosInf) = Some NVPosInf"
| "num_of (JFloat NegInf) = Some NVNegInf"
| "num_of (JFloat NaN) = Some NVNaN"
| "num_of _ = None"

fun nv_less :: "numval \<Rightarrow> numval \<Rightarrow> bool" where
  "nv_less NVNaN b = False"
| "nv_less a NVNaN = False"
| "nv_less (NV a) (NV b) = (a < b)"
| "nv_less (NV a) NVPosInf = True"
| "nv_less (NV a) NVNegInf = False"
| "nv_less NVNegInf (NV b) = True"
| "nv_less NVNegInf NVPosInf = True"
| "nv_less NVNegInf NVNegInf = False"
| "nv_less NVPosInf b = False"

text \<open>
  \<^verbatim>\<open>a < b\<close> and \<^verbatim>\<open>a > b\<close> where \<open>a\<close> is a number (the code only compares a
  length or a value already known to be numeric): \<^verbatim>\<open>TypeError\<close> unless \<open>b\<close> is a
  number too.
\<close>

definition num_lt :: "json \<Rightarrow> json \<Rightarrow> bool res" where
  "num_lt a b =
     (case (num_of a, num_of b) of
        (Some x, Some y) \<Rightarrow> Inr (nv_less x y)
      | _ \<Rightarrow> Inl TypeError)"

definition num_gt :: "json \<Rightarrow> json \<Rightarrow> bool res" where
  "num_gt a b =
     (case (num_of a, num_of b) of
        (Some x, Some y) \<Rightarrow> Inr (nv_less y x)
      | _ \<Rightarrow> Inl TypeError)"

subsection \<open>Formatting inside f-strings\<close>

fun digit_char :: "nat \<Rightarrow> char" where
  "digit_char n = ''0123456789'' ! (n mod 10)"

fun str_nat :: "nat \<Rightarrow> string" where
  "str_nat n = (if n < 10 then [digit_char n] else str_nat (n div 10) @ [digit_char n])"

definition str_int :: "int \<Rightarrow> string" where
  "str_int i = (if i < 0 then CHR ''-'' # str_nat (nat (- i)) else str_nat (nat i))"

fun py_str :: "pylib \<Rightarrow> json \<Rightarrow> string" where
  "py_str lib JNull = ''None''"
| "py_str lib (JBool b) = (if b then ''True'' else ''False'')"
| "py_str lib (JInt i) = str_int i"
| "py_str lib (JStr s) = s"
| "py_str lib v = str_other lib v"

subsection \<open>Containers: \<^verbatim>\<open>in\<close>, \<^verbatim>\<open>[...]\<close>, \<^verbatim>\<open>.get\<close>, \<^verbatim>\<open>.items()\<close>, iteration\<close>

text \<open>\<^verbatim>\<open>sub in s\<close> on two strings: \<open>sub\<close> occurs in \<open>s\<close> as a contiguous run.\<close>

fun contains :: "string \<Rightarrow> string \<Rightarrow> bool" where
  "contains sub [] = (sub = [])"
| "contains sub (c # cs) = (take (length sub) (c # cs) = sub \<or> contains sub cs)"

text \<open>
  The comparison that \<^verbatim>\<open>in\<close> makes between an element of a list and the value looked
  for, and that \<^verbatim>\<open>==\<close> makes between the elements of two lists and the values of two
  dicts: the same object, or else \<^verbatim>\<open>==\<close>. Numbers are equal by value (so
  \<^verbatim>\<open>True == 1 == 1.0\<close>). \<^verbatim>\<open>NaN == NaN\<close> is false, but the parser returns one object,
  \<^verbatim>\<open>json.decoder.NaN\<close>, for every NaN it reads, so two NaN of parsed JSON are the same
  object and the comparison holds of them. Lists are compared element by element, dicts
  as maps from keys to values, anything else only with its own kind.
\<close>

lemma size_json_elem: "x \<in> set xs \<Longrightarrow> size x < size (JArr xs)"
  by (induction xs) auto

lemma size_json_entry: "(k, v) \<in> set kvs \<Longrightarrow> size v < size (JObj kvs)"
  by (induction kvs) auto

lemma size_json_lookup: "map_of kvs k = Some v \<Longrightarrow> size v < size (JObj kvs)"
  by (blast dest: map_of_SomeD size_json_entry)

function py_eq :: "json \<Rightarrow> json \<Rightarrow> bool" where
  "py_eq (JArr xs) b =
     (case b of
        JArr ys \<Rightarrow> list_all2 py_eq xs ys
      | _ \<Rightarrow> False)"
| "py_eq (JObj kvs) b =
     (case b of
        JObj kws \<Rightarrow>
          length kvs = length kws \<and>
          (\<forall>kv \<in> set kvs. case map_of kws (fst kv) of
                               None \<Rightarrow> False
                             | Some w \<Rightarrow> py_eq (snd kv) w)
      | _ \<Rightarrow> False)"
| "py_eq (JStr s) b = (b = JStr s)"
| "py_eq JNull b = (b = JNull)"
| "py_eq (JBool x) b =
     (case (num_of (JBool x), num_of b) of
        (Some x, Some y) \<Rightarrow> x = y
      | _ \<Rightarrow> False)"
| "py_eq (JInt x) b =
     (case (num_of (JInt x), num_of b) of
        (Some x, Some y) \<Rightarrow> x = y
      | _ \<Rightarrow> False)"
| "py_eq (JFloat x) b =
     (case (num_of (JFloat x), num_of b) of
        (Some x, Some y) \<Rightarrow> x = y
      | _ \<Rightarrow> False)"
  by pat_completeness auto
termination
  by (relation "measure (\<lambda>(a, b). size a)")
     (auto simp del: json.size dest: size_json_elem size_json_entry)

text \<open>
  \<^verbatim>\<open>x in c\<close>. A dict hashes \<open>x\<close> first (a list or a dict is unhashable) and has
  only \<^verbatim>\<open>str\<close> keys; a list looks for an element that is the same object as \<open>x\<close>
  or equal to it (\<open>py_eq\<close>); a string wants a string on the left; any other \<open>c\<close> is
  not a container.
\<close>

fun py_in :: "json \<Rightarrow> json \<Rightarrow> bool res" where
  "py_in x (JObj kvs) =
     (case x of
        JStr k \<Rightarrow> Inr (k \<in> fst ` set kvs)
      | JArr xs \<Rightarrow> Inl TypeError
      | JObj kws \<Rightarrow> Inl TypeError
      | _ \<Rightarrow> Inr False)"
| "py_in x (JArr ys) = Inr (\<exists>y \<in> set ys. py_eq y x)"
| "py_in x (JStr s) =
     (case x of
        JStr sub \<Rightarrow> Inr (contains sub s)
      | _ \<Rightarrow> Inl TypeError)"
| "py_in x c = Inl TypeError"

text \<open>\<^verbatim>\<open>c[k]\<close> for a string \<open>k\<close>: only a dict can be subscripted by a string.\<close>

fun py_getitem :: "json \<Rightarrow> string \<Rightarrow> json res" where
  "py_getitem (JObj kvs) k =
     (case map_of kvs k of None \<Rightarrow> Inl KeyError | Some v \<Rightarrow> Inr v)"
| "py_getitem c k = Inl TypeError"

text \<open>\<^verbatim>\<open>c.get(k, d)\<close>: only a dict has the method.\<close>

fun py_get :: "json \<Rightarrow> string \<Rightarrow> json \<Rightarrow> json res" where
  "py_get (JObj kvs) k d = Inr (case map_of kvs k of None \<Rightarrow> d | Some v \<Rightarrow> v)"
| "py_get c k d = Inl AttributeError"

text \<open>\<^verbatim>\<open>c.items()\<close>.\<close>

fun py_items :: "json \<Rightarrow> (string \<times> json) list res" where
  "py_items (JObj kvs) = Inr kvs"
| "py_items c = Inl AttributeError"

text \<open>
  \<^verbatim>\<open>for x in c\<close>: the elements of a list, the keys of a dict, the one-character
  strings of a string; \<^verbatim>\<open>TypeError\<close> for anything else.
\<close>

fun py_iter :: "json \<Rightarrow> json list res" where
  "py_iter (JArr xs) = Inr xs"
| "py_iter (JObj kvs) = Inr (map (\<lambda>kv. JStr (fst kv)) kvs)"
| "py_iter (JStr s) = Inr (map (\<lambda>c. JStr [c]) s)"
| "py_iter c = Inl TypeError"

lemma size_py_iter: "py_iter c = Inr xs \<Longrightarrow> x \<in> set xs \<Longrightarrow> size x \<le> size c"
proof (cases c)
  case (JArr ys)
  assume "py_iter c = Inr xs" "x \<in> set xs"
  with JArr show ?thesis
    using size_json_elem [of x ys] by (simp del: json.size)
qed auto

lemma size_py_items: "py_items c = Inr kvs \<Longrightarrow> (k, v) \<in> set kvs \<Longrightarrow> size v < size c"
  by (cases c) (auto simp del: json.size simp add: size_json_entry)

section \<open>The validator\<close>

subsection \<open>Loops that collect errors\<close>

text \<open>
  \<^verbatim>\<open>for x in xs: errors.extend(f(x))\<close>: the error lists of all elements, in order.
  An exception in one element ends the loop and the call.
\<close>

fun collect :: "('a \<Rightarrow> string list res) \<Rightarrow> 'a list \<Rightarrow> string list res" where
  "collect f [] = Inr []"
| "collect f (x # xs) =
     bindE (f x) (\<lambda>errs. bindE (collect f xs) (\<lambda>rest. Inr (errs @ rest)))"

text \<open>
  The loop over \<^verbatim>\<open>schema['anyOf']\<close> (lines 162 to 169): it stops at the first
  alternative without errors (\<^verbatim>\<open>any_valid = True; break\<close>) and otherwise extends
  \<^verbatim>\<open>any_errors\<close>. The result is the pair \<^verbatim>\<open>(any_valid, any_errors)\<close>.
\<close>

fun any_of_loop ::
  "(json \<Rightarrow> string list res) \<Rightarrow> json list \<Rightarrow> string list \<Rightarrow> (bool \<times> string list) res" where
  "any_of_loop f [] any_errors = Inr (False, any_errors)"
| "any_of_loop f (sub_schema # rest) any_errors =
     bindE (f sub_schema) (\<lambda>sub_errors.
       if sub_errors = [] then Inr (True, any_errors)
       else any_of_loop f rest (any_errors @ sub_errors))"

lemma bindE_cong [fundef_cong]:
  "m = m' \<Longrightarrow> (\<And>x. m' = Inr x \<Longrightarrow> f x = f' x) \<Longrightarrow> bindE m f = bindE m' f'"
  by (auto simp: bindE_def split: sum.splits)

lemma collect_cong [fundef_cong]:
  "xs = ys \<Longrightarrow> (\<And>x. x \<in> set ys \<Longrightarrow> f x = g x) \<Longrightarrow> collect f xs = collect g ys"
  by (induction ys arbitrary: xs) (auto simp: bindE_def)

lemma any_of_loop_cong [fundef_cong]:
  "xs = ys \<Longrightarrow> acc = acc' \<Longrightarrow> (\<And>x. x \<in> set ys \<Longrightarrow> f x = g x)
   \<Longrightarrow> any_of_loop f xs acc = any_of_loop g ys acc'"
  by (induction ys arbitrary: xs acc acc') (auto simp: bindE_def split: sum.splits)

subsection \<open>\<^verbatim>\<open>_validate_string_format\<close> (lines 177 to 201)\<close>

definition validate_string_format :: "pylib \<Rightarrow> string \<Rightarrow> string \<Rightarrow> json \<Rightarrow> string list" where
  "validate_string_format lib name value format_type =
     (if format_type = JStr ''date-time'' then
        (if \<not> fmt_match lib DateTimeRe value
         then [''Property '' @ name @ '' should be in ISO date-time format''] else [])
      else if format_type = JStr ''email'' then
        (if \<not> fmt_match lib EmailRe value
         then [''Property '' @ name @ '' should be a valid email address''] else [])
      else if format_type = JStr ''uuid'' then
        (if \<not> fmt_match lib UuidRe value
         then [''Property '' @ name @ '' should be a valid UUID''] else [])
      else if format_type = JStr ''uri'' \<or> format_type = JStr ''url'' then
        (if \<not> fmt_match lib UrlRe value
         then [''Property '' @ name @ '' should be a valid URL''] else [])
      else [])"

subsection \<open>\<^verbatim>\<open>_validate_property\<close> (lines 81 to 175)\<close>

text \<open>
  The six bound checks have one shape,
  \<^verbatim>\<open>if key in schema and x < schema[key]: errors.append(f"Property {name} ... {schema[key]})")\<close>,
  with \<^verbatim>\<open><\<close> or \<^verbatim>\<open>></\<close> as the comparison. \<open>kvs\<close> are the entries of the schema,
  already known to be a dict; \<open>msg\<close> is the text between the name and the bound.
\<close>

definition bound_check ::
  "pylib \<Rightarrow> (json \<Rightarrow> json \<Rightarrow> bool res) \<Rightarrow> json \<Rightarrow> (string \<times> json) list \<Rightarrow> string \<Rightarrow> string \<Rightarrow> string
   \<Rightarrow> string list res" where
  "bound_check lib cmp x kvs key name msg =
     (case map_of kvs key of
        None \<Rightarrow> Inr []
      | Some bound \<Rightarrow>
          bindE (cmp x bound) (\<lambda>violated.
            Inr (if violated
                 then [''Property '' @ name @ msg @ py_str lib bound @ '')'']
                 else [])))"

text \<open>The branch \<^verbatim>\<open>schema_type == 'string'\<close> (lines 95 to 108).\<close>

definition check_string :: "pylib \<Rightarrow> string \<Rightarrow> json \<Rightarrow> (string \<times> json) list \<Rightarrow> string list res" where
  "check_string lib name value kvs =
     (case value of
        JStr s \<Rightarrow>
          bindE (Inr (case map_of kvs ''format'' of
                        None \<Rightarrow> []
                      | Some format_type \<Rightarrow> validate_string_format lib name s format_type))
            (\<lambda>format_errors.
          bindE (bound_check lib num_lt (JInt (int (length s))) kvs ''minLength'' name
                   '' is too short (min: '') (\<lambda>short.
          bindE (bound_check lib num_gt (JInt (int (length s))) kvs ''maxLength'' name
                   '' is too long (max: '') (\<lambda>long.
          Inr (format_errors @ short @ long))))
      | _ \<Rightarrow> Inr [''Property '' @ name @ '' should be a string''])"

text \<open>
  The branch \<^verbatim>\<open>schema_type == 'number' or schema_type == 'integer'\<close> (lines 110 to
  120). \<^verbatim>\<open>isinstance(value, (int, float))\<close> holds of a \<^verbatim>\<open>bool\<close> too.
\<close>

definition check_number ::
  "pylib \<Rightarrow> string \<Rightarrow> json \<Rightarrow> json \<Rightarrow> (string \<times> json) list \<Rightarrow> string list res" where
  "check_number lib name value schema_type kvs =
     (if \<not> (is_int value \<or> is_float value)
      then Inr [''Property '' @ name @ '' should be a number'']
      else
        bindE (Inr (if schema_type = JStr ''integer'' \<and> \<not> is_int value
                    then [''Property '' @ name @ '' should be an integer''] else []))
          (\<lambda>integral.
        bindE (bound_check lib num_lt value kvs ''minimum'' name '' is too small (min: '') (\<lambda>small.
        bindE (bound_check lib num_gt value kvs ''maximum'' name '' is too large (max: '') (\<lambda>large.
        Inr (integral @ small @ large)))))"

text \<open>The branch \<^verbatim>\<open>schema_type == 'boolean'\<close> (lines 122 to 124).\<close>

definition check_boolean :: "string \<Rightarrow> json \<Rightarrow> string list res" where
  "check_boolean name value =
     (if \<not> is_bool value
      then Inr [''Property '' @ name @ '' should be a boolean'']
      else Inr [])"

text \<open>
  The leading underscore of \<^verbatim>\<open>_validate_property\<close> is dropped. A \<^verbatim>\<open>None\<close> value
  returns at once (lines 86 to 90), where the schema is only read with \<^verbatim>\<open>in\<close> and
  \<^verbatim>\<open>[...]\<close>. For any other value \<^verbatim>\<open>schema.get('type')\<close> comes first, so from there
  on the schema is a dict with entries \<open>kvs\<close>, \<^verbatim>\<open>key in schema\<close> is
  \<open>map_of kvs key \<noteq> None\<close> and \<^verbatim>\<open>schema[key]\<close> is the value found.

  The function is written in four parts that call each other: \<open>validate_property\<close> is
  the body with the type dispatch of lines 92 to 158, \<open>check_array\<close> the branch
  \<^verbatim>\<open>schema_type == 'array'\<close> (lines 126 to 140), \<open>check_object\<close> the branch
  \<^verbatim>\<open>schema_type == 'object'\<close> (lines 142 to 158) and \<open>check_any_of\<close> the block
  \<^verbatim>\<open>if 'anyOf' in schema\<close> (lines 160 to 173), which gets the \<open>errors\<close> found so
  far and returns the final list.
\<close>

function
  validate_property :: "pylib \<Rightarrow> string \<Rightarrow> json \<Rightarrow> json \<Rightarrow> string list res" and
  check_array :: "pylib \<Rightarrow> string \<Rightarrow> json \<Rightarrow> (string \<times> json) list \<Rightarrow> string list res" and
  check_object :: "pylib \<Rightarrow> string \<Rightarrow> json \<Rightarrow> (string \<times> json) list \<Rightarrow> string list res" and
  check_any_of ::
    "pylib \<Rightarrow> string \<Rightarrow> json \<Rightarrow> (string \<times> json) list \<Rightarrow> string list \<Rightarrow> string list res"
where
  "validate_property lib name value schema =
     (if value = JNull then
        bindE (py_in (JStr ''nullable'') schema) (\<lambda>has_nullable.
        bindE (if has_nullable
               then bindE (py_getitem schema ''nullable'') (\<lambda>nullable. Inr (truthy nullable))
               else Inr False) (\<lambda>nullable.
        if nullable then Inr []
        else Inr [''Property '' @ name @ '' cannot be null'']))
      else
        (case schema of
           JObj kvs \<Rightarrow>
             bindE (py_get schema ''type'' JNull) (\<lambda>schema_type.
             bindE
               (if truthy schema_type then
                  if schema_type = JStr ''string'' then check_string lib name value kvs
                  else if schema_type = JStr ''number'' \<or> schema_type = JStr ''integer'' then
                    check_number lib name value schema_type kvs
                  else if schema_type = JStr ''boolean'' then check_boolean name value
                  else if schema_type = JStr ''array'' then check_array lib name value kvs
                  else if schema_type = JStr ''object'' then check_object lib name value kvs
                  else Inr []
                else Inr []) (\<lambda>errors.
             check_any_of lib name value kvs errors))
         | _ \<Rightarrow> Inl AttributeError))"
| "check_array lib name value kvs =
     (case value of
        JArr xs \<Rightarrow>
          bindE (case map_of kvs ''items'' of
                   None \<Rightarrow> Inr []
                 | Some items \<Rightarrow>
                     collect (\<lambda>(i, item).
                         validate_property lib (name @ ''['' @ str_int (int i) @ '']'') item items)
                       (enumerate 0 xs)) (\<lambda>item_errors.
          bindE (bound_check lib num_lt (JInt (int (length xs))) kvs ''minItems''
                   name '' has too few items (min: '') (\<lambda>few.
          bindE (bound_check lib num_gt (JInt (int (length xs))) kvs ''maxItems''
                   name '' has too many items (max: '') (\<lambda>many.
          Inr (item_errors @ few @ many))))
      | _ \<Rightarrow> Inr [''Property '' @ name @ '' should be an array''])"
| "check_object lib name value kvs =
     (case value of
        JObj members \<Rightarrow>
          bindE (case map_of kvs ''properties'' of
                   None \<Rightarrow> Inr []
                 | Some properties \<Rightarrow>
                     bindE (py_items properties) (\<lambda>props.
                     collect (\<lambda>(prop_name, prop_spec).
                         case map_of members prop_name of
                           None \<Rightarrow> Inr []
                         | Some v \<Rightarrow>
                             validate_property lib (name @ ''.'' @ prop_name) v prop_spec)
                       props)) (\<lambda>prop_errors.
          bindE (case map_of kvs ''required'' of
                   None \<Rightarrow> Inr []
                 | Some required \<Rightarrow>
                     bindE (py_iter required) (\<lambda>required_props.
                     collect (\<lambda>required_prop.
                         bindE (py_in required_prop value) (\<lambda>present.
                         Inr (if \<not> present
                              then [''Missing required property '' @ name @ ''.''
                                    @ py_str lib required_prop]
                              else [])))
                       required_props)) (\<lambda>missing.
          Inr (prop_errors @ missing)))
      | _ \<Rightarrow> Inr [''Property '' @ name @ '' should be an object''])"
| "check_any_of lib name value kvs errors =
     (case map_of kvs ''anyOf'' of
        None \<Rightarrow> Inr errors
      | Some any_of \<Rightarrow>
          bindE (py_iter any_of) (\<lambda>sub_schemas.
          bindE (any_of_loop (\<lambda>sub_schema. validate_property lib name value sub_schema)
                   sub_schemas []) (\<lambda>(any_valid, any_errors).
          if \<not> any_valid
          then Inr (errors
                    @ [''Property '' @ name @ '' does not match any allowed schemas'']
                    @ map (\<lambda>err. ''  - '' @ err) any_errors)
          else Inr errors)))"
  by pat_completeness auto
termination
proof (relation "measure (\<lambda>call. case call of
          Inl (Inl (lib, name, value, schema)) \<Rightarrow> 2 * size schema + 1
        | Inl (Inr (lib, name, value, kvs)) \<Rightarrow> 2 * size (JObj kvs)
        | Inr (Inl (lib, name, value, kvs)) \<Rightarrow> 2 * size (JObj kvs)
        | Inr (Inr (lib, name, value, kvs, errors)) \<Rightarrow> 2 * size (JObj kvs))",
       goal_cases)
  case (5 lib name val kvs xs items p i item)
  then show ?case
    using size_json_lookup [of kvs "''items''" items] by simp
next
  case (6 lib name val kvs members properties props p prop_name prop_spec v)
  then show ?case
    using size_json_lookup [of kvs "''properties''" properties]
          size_py_items [of properties props prop_name prop_spec] by simp
next
  case (7 lib name val kvs errors any_of sub_schemas sub_schema)
  then show ?case
    using size_json_lookup [of kvs "''anyOf''" any_of]
          size_py_iter [of any_of sub_schemas sub_schema] by simp
qed simp_all

declare validate_property.simps [simp del] check_array.simps [simp del]
  check_object.simps [simp del] check_any_of.simps [simp del]

subsection \<open>\<^verbatim>\<open>validate_response\<close> (lines 62 to 79)\<close>

text \<open>
  The response is annotated \<^verbatim>\<open>Dict[str, Any]\<close>, but nothing checks it: the model
  takes any value and follows what \<^verbatim>\<open>in\<close> and \<^verbatim>\<open>[...]\<close> do on it.
\<close>

definition validate_response :: "pylib \<Rightarrow> json \<Rightarrow> json \<Rightarrow> string list res" where
  "validate_response lib response schema =
     bindE (py_get schema ''required'' (JArr [])) (\<lambda>required.
     bindE (py_iter required) (\<lambda>required_props.
     bindE (collect (\<lambda>prop.
              bindE (py_in prop response) (\<lambda>present.
              Inr (if \<not> present
                   then [''Missing required property: '' @ py_str lib prop]
                   else [])))
            required_props) (\<lambda>missing.
     bindE (py_get schema ''properties'' (JObj [])) (\<lambda>properties.
     bindE (py_items properties) (\<lambda>props.
     bindE (collect (\<lambda>(prop_name, prop_spec).
              bindE (py_in (JStr prop_name) response) (\<lambda>present.
              if present
              then bindE (py_getitem response prop_name) (\<lambda>v.
                     validate_property lib prop_name v prop_spec)
              else Inr []))
            props) (\<lambda>prop_errors.
     Inr (missing @ prop_errors)))))))"

section \<open>Finding the response schema of an endpoint\<close>

subsection \<open>\<^verbatim>\<open>_extract_response_schema\<close> (lines 47 to 60)\<close>

text \<open>
  The loop over \<^verbatim>\<open>['200', '201']\<close>. The function returns \<^verbatim>\<open>None\<close>, here
  \<open>JNull\<close>, when the loop ends, and also when the JSON body found has no
  \<^verbatim>\<open>schema\<close> key (\<^verbatim>\<open>.get('schema')\<close>).
\<close>

fun status_loop :: "json \<Rightarrow> string list \<Rightarrow> json res" where
  "status_loop responses [] = Inr JNull"
| "status_loop responses (status_code # rest) =
     bindE (py_in (JStr status_code) responses) (\<lambda>has_status.
     if has_status then
       bindE (py_getitem responses status_code) (\<lambda>response_spec.
       bindE (py_in (JStr ''content'') response_spec) (\<lambda>has_content.
       if has_content then
         bindE (py_getitem response_spec ''content'') (\<lambda>content.
         bindE (py_in (JStr ''application/json'') content) (\<lambda>has_json.
         if has_json then
           bindE (py_getitem content ''application/json'') (\<lambda>media.
           py_get media ''schema'' JNull)
         else status_loop responses rest))
       else status_loop responses rest))
     else status_loop responses rest)"

definition extract_response_schema :: "json \<Rightarrow> json res" where
  "extract_response_schema method_spec =
     bindE (py_get method_spec ''responses'' (JObj [])) (\<lambda>responses.
     status_loop responses [''200'', ''201''])"

subsection \<open>\<^verbatim>\<open>_match_path_pattern\<close> (lines 40 to 45)\<close>

text \<open>
  \<^verbatim>\<open>re.sub\<close> with the pattern for a brace, one or more characters other than a
  closing brace, and a closing brace, replaced by \<^verbatim>\<open>([^/]+)\<close>. The result is kept as
  a list of tokens, \<open>Param\<close> for each replaced placeholder and \<open>Lit c\<close> for each
  character copied; \<open>render\<close> gives the pattern string. At an opening brace the pattern
  matches iff a closing brace follows after at least one other character; the search goes
  on behind the match, or at the next character if there is none.
\<close>

datatype tok = Lit char | Param

function sub_params :: "string \<Rightarrow> tok list" where
  "sub_params [] = []"
| "sub_params (c # cs) =
     (if c = CHR ''{''
         \<and> takeWhile (\<lambda>d. d \<noteq> CHR ''}'') cs \<noteq> []
         \<and> dropWhile (\<lambda>d. d \<noteq> CHR ''}'') cs \<noteq> []
      then Param # sub_params (tl (dropWhile (\<lambda>d. d \<noteq> CHR ''}'') cs))
      else Lit c # sub_params cs)"
  by pat_completeness auto
termination
  by (relation "measure length")
     (auto intro: le_imp_less_Suc order_trans [OF diff_le_self length_dropWhile_le])

fun render_tok :: "tok \<Rightarrow> string" where
  "render_tok (Lit c) = [c]"
| "render_tok Param = ''([^/]+)''"

definition render :: "tok list \<Rightarrow> string" where
  "render toks = concat (map render_tok toks)"

text \<open>
  The characters with a meaning in a regular expression, and \<^verbatim>\<open>re.match\<close> on the
  pattern between \<^verbatim>\<open>^\<close> and \<^verbatim>\<open>$\<close>. The template is not escaped, so a copied
  character keeps the meaning it has in a regular expression. Three cases:

    \<^item> every copied character is a dot or has no meaning of its own: the pattern is a
      sequence of literal characters, dots and \<^verbatim>\<open>([^/]+)\<close> groups, and the match is
      computed by \<open>match_toks\<close>: a literal matches itself, a dot matches any character
      but a line feed, a group matches one or more characters other than a slash, and
      \<^verbatim>\<open>$\<close> matches at the end of the string or before a line feed that ends it;

    \<^item> otherwise, if the only other copied characters are opening parentheses: a
      group is opened and never closed, and compiling the pattern raises
      \<^verbatim>\<open>re.error\<close>;

    \<^item> any other pattern is handed to \<open>re_match\<close>.
\<close>

definition regex_special :: "char \<Rightarrow> bool" where
  "regex_special c = (c \<in> set ''.^$*+?{}[]|()'' \<or> c = CHR 0x5C)"

fun known_tok :: "tok \<Rightarrow> bool" where
  "known_tok (Lit c) = (\<not> regex_special c \<or> c = CHR ''.'')"
| "known_tok Param = True"

fun match_toks :: "tok list \<Rightarrow> string \<Rightarrow> bool" where
  "match_toks [] s = (s = [] \<or> s = [CHR 0x0A])"
| "match_toks (Lit c # ts) s =
     (case s of
        [] \<Rightarrow> False
      | d # rest \<Rightarrow> (if c = CHR ''.'' then d \<noteq> CHR 0x0A else d = c) \<and> match_toks ts rest)"
| "match_toks (Param # ts) s =
     (case s of
        [] \<Rightarrow> False
      | d # rest \<Rightarrow> d \<noteq> CHR ''/'' \<and> (match_toks ts rest \<or> match_toks (Param # ts) rest))"

definition unclosed_group :: "tok list \<Rightarrow> bool" where
  "unclosed_group pattern =
     (Lit CHR ''('' \<in> set pattern
      \<and> list_all (\<lambda>t. known_tok t \<or> t = Lit CHR ''('') pattern)"

definition match_path_pattern :: "pylib \<Rightarrow> string \<Rightarrow> string \<Rightarrow> bool res" where
  "match_path_pattern lib actual_path schema_path =
     (let pattern = sub_params schema_path in
      if list_all known_tok pattern
      then Inr (match_toks pattern actual_path)
      else if unclosed_group pattern
      then Inl ReError
      else re_match lib (''^'' @ render pattern @ ''$'') actual_path)"

subsection \<open>\<^verbatim>\<open>get_schema_for_endpoint\<close> (lines 16 to 38)\<close>

text \<open>\<^verbatim>\<open>str.lower\<close> and \<^verbatim>\<open>str.rstrip('/')\<close> on code points below 256.\<close>

definition lower_char :: "char \<Rightarrow> char" where
  "lower_char c =
     (let n = (of_char c :: nat) in
      if (65 \<le> n \<and> n \<le> 90) \<or> (192 \<le> n \<and> n \<le> 222 \<and> n \<noteq> 215)
      then char_of (n + 32) else c)"

definition lower :: "string \<Rightarrow> string" where
  "lower s = map lower_char s"

definition rstrip_slash :: "string \<Rightarrow> string" where
  "rstrip_slash s = rev (dropWhile (\<lambda>c. c = CHR ''/'') (rev s))"

definition normalize_path :: "string \<Rightarrow> string" where
  "normalize_path path =
     (let path = rstrip_slash path in
      if \<not> (case path of [] \<Rightarrow> False | c # cs \<Rightarrow> c = CHR ''/'')
      then CHR ''/'' # path else path)"

text \<open>
  The loop over \<^verbatim>\<open>paths.items()\<close> (lines 33 to 36), which returns from the function
  at the first template that matches and has the method; \<open>method\<close> is already in lower
  case here. \<open>JNull\<close> is the \<^verbatim>\<open>None\<close> of line 38.
\<close>

fun scan_paths :: "pylib \<Rightarrow> string \<Rightarrow> string \<Rightarrow> (string \<times> json) list \<Rightarrow> json res" where
  "scan_paths lib method path [] = Inr JNull"
| "scan_paths lib method path ((schema_path, path_spec) # rest) =
     bindE (match_path_pattern lib path schema_path) (\<lambda>matched.
     if matched then
       bindE (py_in (JStr method) path_spec) (\<lambda>has_method.
       if has_method
       then bindE (py_getitem path_spec method) extract_response_schema
       else scan_paths lib method path rest)
     else scan_paths lib method path rest)"

text \<open>
  \<open>doc\<close> is \<^verbatim>\<open>self.schema\<close>, with \<open>JNull\<close> for the \<^verbatim>\<open>None\<close> of a validator
  built without a schema file. The exact match of lines 27 to 30 gives \<open>Some\<close> result
  when it returns and \<open>None\<close> when the function goes on to the loop.
\<close>

definition get_schema_for_endpoint :: "pylib \<Rightarrow> json \<Rightarrow> string \<Rightarrow> string \<Rightarrow> json res" where
  "get_schema_for_endpoint lib doc method path0 =
     (if \<not> truthy doc then Inr JNull
      else
        let path = normalize_path path0 in
        bindE (py_get doc ''paths'' (JObj [])) (\<lambda>paths.
        bindE (py_in (JStr path) paths) (\<lambda>registered.
        bindE (if registered then
                 bindE (py_getitem doc ''paths'') (\<lambda>paths.
                 bindE (py_getitem paths path) (\<lambda>endpoint_spec.
                 bindE (py_in (JStr (lower method)) endpoint_spec) (\<lambda>has_method.
                 if has_method
                 then bindE (py_getitem endpoint_spec (lower method)) (\<lambda>method_spec.
                      bindE (extract_response_schema method_spec) (\<lambda>r. Inr (Some r)))
                 else Inr None)))
               else Inr None) (\<lambda>exact.
        case exact of
          Some r \<Rightarrow> Inr r
        | None \<Rightarrow>
            bindE (py_get doc ''paths'' (JObj [])) (\<lambda>paths.
            bindE (py_items paths) (\<lambda>templates.
            scan_paths lib (lower method) path templates))))))"

section \<open>The supported schemas\<close>

text \<open>
  The exceptions of the validator come from schemas outside the dialect the validator
  is written for: a bound that is not a number (the comparison raises), properties that
  are not a dict, a list of required names or of alternatives that cannot be iterated or
  holds unhashable entries. \<open>wf_schema\<close> describes the fragments of the dialect:
  a dict whose bounds, if present, are numbers, whose \<^verbatim>\<open>items\<close> is a fragment, whose
  \<^verbatim>\<open>properties\<close> is a dict of fragments, whose \<^verbatim>\<open>required\<close> is a list of strings
  and whose \<^verbatim>\<open>anyOf\<close> is a list of fragments. Nothing is asked of \<^verbatim>\<open>type\<close>,
  \<^verbatim>\<open>format\<close> and \<^verbatim>\<open>nullable\<close>, which the code reads without raising.
\<close>

definition bound_ok :: "(string \<times> json) list \<Rightarrow> string \<Rightarrow> bool" where
  "bound_ok kvs key = (case map_of kvs key of None \<Rightarrow> True | Some b \<Rightarrow> num_of b \<noteq> None)"

function wf_schema :: "json \<Rightarrow> bool" where
  "wf_schema (JObj kvs) =
     (bound_ok kvs ''minLength'' \<and> bound_ok kvs ''maxLength''
      \<and> bound_ok kvs ''minimum'' \<and> bound_ok kvs ''maximum''
      \<and> bound_ok kvs ''minItems'' \<and> bound_ok kvs ''maxItems''
      \<and> (case map_of kvs ''items'' of None \<Rightarrow> True | Some items \<Rightarrow> wf_schema items)
      \<and> (case map_of kvs ''properties'' of
            None \<Rightarrow> True
          | Some (JObj props) \<Rightarrow> (\<forall>p \<in> set props. wf_schema (snd p))
          | Some _ \<Rightarrow> False)
      \<and> (case map_of kvs ''required'' of
            None \<Rightarrow> True
          | Some (JArr required) \<Rightarrow> list_all is_str required
          | Some _ \<Rightarrow> False)
      \<and> (case map_of kvs ''anyOf'' of
            None \<Rightarrow> True
          | Some (JArr subs) \<Rightarrow> (\<forall>sub \<in> set subs. wf_schema sub)
          | Some _ \<Rightarrow> False))"
| "wf_schema JNull = False"
| "wf_schema (JBool b) = False"
| "wf_schema (JInt i) = False"
| "wf_schema (JFloat f) = False"
| "wf_schema (JStr s) = False"
| "wf_schema (JArr xs) = False"
  by pat_completeness auto
termination
  by (relation "measure size")
     (auto simp del: json.size dest!: size_json_lookup dest: size_json_elem size_json_entry)

text \<open>A call returns when its result is a value and not an exception.\<close>

definition returns :: "'a res \<Rightarrow> bool" where
  "returns r = (case r of Inl e \<Rightarrow> False | Inr x \<Rightarrow> True)"

section \<open>Notions used to state the claims\<close>

text \<open>
  A schema without one of its keys: the fragment that remains when \<^verbatim>\<open>anyOf\<close> is
  taken out is what the type dispatch of a fragment sees.
\<close>

definition without_key :: "string \<Rightarrow> (string \<times> json) list \<Rightarrow> (string \<times> json) list" where
  "without_key k kvs = filter (\<lambda>kv. fst kv \<noteq> k) kvs"

text \<open>
  Path normalization in the spec's words: the trailing slashes are stripped, and a
  leading slash is put in front of what remains unless it has one. \<open>core\<close> is the
  path without its trailing slashes.
\<close>

definition normalized :: "string \<Rightarrow> string \<Rightarrow> bool" where
  "normalized path p =
     (\<exists>core k. path = core @ replicate k CHR ''/''
               \<and> (core = [] \<or> last core \<noteq> CHR ''/'')
               \<and> p = (if core \<noteq> [] \<and> hd core = CHR ''/'' then core else CHR ''/'' # core))"

text \<open>
  Path templates in the spec's words. A template is read as a sequence of pieces: single
  characters other than braces, and placeholders, written as a name between braces, where
  the name is not empty and holds no closing brace. \<open>spell\<close> writes the pieces out,
  \<open>fill\<close> replaces the placeholders by segments, and a segment is not empty and holds
  no slash. A template matches a path when the path is the template with each placeholder
  replaced by a segment.
\<close>

datatype piece = Text char | Hole string

fun spell :: "piece list \<Rightarrow> string" where
  "spell [] = []"
| "spell (Text c # ps) = c # spell ps"
| "spell (Hole name # ps) = CHR ''{'' # name @ CHR ''}'' # spell ps"

fun well_spelled :: "piece \<Rightarrow> bool" where
  "well_spelled (Text c) = (c \<noteq> CHR ''{'' \<and> c \<noteq> CHR ''}'')"
| "well_spelled (Hole name) = (name \<noteq> [] \<and> CHR ''}'' \<notin> set name)"

fun holes :: "piece list \<Rightarrow> nat" where
  "holes [] = 0"
| "holes (Text c # ps) = holes ps"
| "holes (Hole name # ps) = Suc (holes ps)"

fun fill :: "piece list \<Rightarrow> string list \<Rightarrow> string" where
  "fill [] segs = []"
| "fill (Text c # ps) segs = c # fill ps segs"
| "fill (Hole name # ps) [] = fill ps []"
| "fill (Hole name # ps) (seg # segs) = seg @ fill ps segs"

definition segment :: "string \<Rightarrow> bool" where
  "segment seg = (seg \<noteq> [] \<and> CHR ''/'' \<notin> set seg)"

definition template_matches :: "string \<Rightarrow> string \<Rightarrow> bool" where
  "template_matches template path =
     (\<exists>pieces segs. template = spell pieces \<and> list_all well_spelled pieces
                    \<and> length segs = holes pieces \<and> list_all segment segs
                    \<and> path = fill pieces segs)"

text \<open>
  The operation a path item declares for a method, and the operation the spec selects:
  that of the template equal to the path when it has the method, and otherwise that of the
  first template, in stored order, that matches the path and has the method.
\<close>

definition operation_of :: "json \<Rightarrow> string \<Rightarrow> json option" where
  "operation_of item method = (case item of JObj ops \<Rightarrow> map_of ops method | _ \<Rightarrow> None)"

definition resolve_operation :: "(string \<times> json) list \<Rightarrow> string \<Rightarrow> string \<Rightarrow> json option" where
  "resolve_operation templates method path =
     (case (case map_of templates path of
              None \<Rightarrow> None
            | Some item \<Rightarrow> operation_of item method) of
        Some operation \<Rightarrow> Some operation
      | None \<Rightarrow>
          (case find (\<lambda>(template, item).
                   template_matches template path
                   \<and> operation_of item method \<noteq> None) templates of
             None \<Rightarrow> None
           | Some (template, item) \<Rightarrow> operation_of item method))"

text \<open>
  The documents for which the lookup is what the spec says: \<^verbatim>\<open>paths\<close>, when present,
  is a dict of path items that are dicts, under templates whose characters outside the
  placeholders have no meaning in a regular expression.
\<close>

fun literal_piece :: "piece \<Rightarrow> bool" where
  "literal_piece (Text c) = (\<not> regex_special c)"
| "literal_piece (Hole name) = (name \<noteq> [] \<and> CHR ''}'' \<notin> set name)"

definition literal_template :: "string \<Rightarrow> bool" where
  "literal_template template = (\<exists>pieces. template = spell pieces \<and> list_all literal_piece pieces)"

definition wf_templates :: "(string \<times> json) list \<Rightarrow> bool" where
  "wf_templates templates =
     (\<forall>(template, item) \<in> set templates. is_dict item \<and> literal_template template)"

definition registered :: "(string \<times> json) list \<Rightarrow> (string \<times> json) list option" where
  "registered doc =
     (case map_of doc ''paths'' of
        None \<Rightarrow> Some []
      | Some (JObj templates) \<Rightarrow> Some templates
      | Some _ \<Rightarrow> None)"

text \<open>
  Response extraction in the spec's words: the JSON body declared by the response of a
  status code, the schema of a body (\<open>JNull\<close> when it has none), and the schema of the
  first of the codes 200 and 201 that declares a JSON body. An operation is well formed
  when its responses are a dict and the responses of these two codes are dicts whose
  \<^verbatim>\<open>content\<close>, when present, is a dict with a dict under \<^verbatim>\<open>application/json\<close>.
\<close>

definition responses_of :: "(string \<times> json) list \<Rightarrow> json" where
  "responses_of operation = (case map_of operation ''responses'' of None \<Rightarrow> JObj [] | Some r \<Rightarrow> r)"

definition json_body :: "json \<Rightarrow> string \<Rightarrow> json option" where
  "json_body responses code =
     (case responses of
        JObj rs \<Rightarrow>
          (case map_of rs code of
             Some (JObj spec) \<Rightarrow>
               (case map_of spec ''content'' of
                  Some (JObj content) \<Rightarrow> map_of content ''application/json''
                | _ \<Rightarrow> None)
           | _ \<Rightarrow> None)
      | _ \<Rightarrow> None)"

definition declared_schema :: "json \<Rightarrow> json" where
  "declared_schema media =
     (case media of
        JObj m \<Rightarrow> (case map_of m ''schema'' of None \<Rightarrow> JNull | Some schema \<Rightarrow> schema)
      | _ \<Rightarrow> JNull)"

definition first_json_schema :: "(string \<times> json) list \<Rightarrow> json" where
  "first_json_schema operation =
     (case json_body (responses_of operation) ''200'' of
        Some media \<Rightarrow> declared_schema media
      | None \<Rightarrow>
          (case json_body (responses_of operation) ''201'' of
             Some media \<Rightarrow> declared_schema media
           | None \<Rightarrow> JNull))"

definition wf_response :: "json \<Rightarrow> bool" where
  "wf_response spec =
     (case spec of
        JObj kvs \<Rightarrow>
          (case map_of kvs ''content'' of
             None \<Rightarrow> True
           | Some (JObj content) \<Rightarrow>
               (case map_of content ''application/json'' of
                  None \<Rightarrow> True
                | Some media \<Rightarrow> is_dict media)
           | Some _ \<Rightarrow> False)
      | _ \<Rightarrow> False)"

definition wf_operation :: "json \<Rightarrow> bool" where
  "wf_operation operation =
     (case operation of
        JObj kvs \<Rightarrow>
          (case responses_of kvs of
             JObj rs \<Rightarrow>
               list_all (\<lambda>code. case map_of rs code of None \<Rightarrow> True | Some spec \<Rightarrow> wf_response spec)
                 [''200'', ''201'']
           | _ \<Rightarrow> False)
      | _ \<Rightarrow> False)"

text \<open>
  For the proofs: the token of a piece, the tokens that stand for themselves in a pattern,
  and a test, by recursion on the tokens, of whether a string is the tokens with each
  \<open>Param\<close> replaced by a segment.
\<close>

fun tok_of :: "piece \<Rightarrow> tok" where
  "tok_of (Text c) = Lit c"
| "tok_of (Hole name) = Param"

fun plain_tok :: "tok \<Rightarrow> bool" where
  "plain_tok (Lit c) = (\<not> regex_special c)"
| "plain_tok Param = True"

fun fills :: "tok list \<Rightarrow> string \<Rightarrow> bool" where
  "fills [] s = (s = [])"
| "fills (Lit c # ts) s = (case s of [] \<Rightarrow> False | d # rest \<Rightarrow> d = c \<and> fills ts rest)"
| "fills (Param # ts) s =
     (case s of
        [] \<Rightarrow> False
      | d # rest \<Rightarrow> d \<noteq> CHR ''/'' \<and> (fills ts rest \<or> fills (Param # ts) rest))"

section \<open>Inputs of the closed examples\<close>

text \<open>
  A closed example needs a runtime. The examples below never reach it: they check no
  string format, use no path template whose pattern is handed to \<open>re_match\<close> and
  print no float, list or dict.
\<close>

definition example_lib :: pylib where
  "example_lib = \<lparr>fmt_match = (\<lambda>rx s. False), re_match = (\<lambda>pattern s. Inl ReError),
                   str_other = (\<lambda>v. ''?'')\<rparr>"

text \<open>An operation whose response 200 declares a JSON body with a schema.\<close>

definition agents_operation :: json where
  "agents_operation =
     JObj [(''responses'',
            JObj [(''200'',
                   JObj [(''content'',
                          JObj [(''application/json'',
                                 JObj [(''schema'', JObj [(''type'', JStr ''object'')])])])])])]"

section \<open>Lemmas\<close>

subsection \<open>Returning calls\<close>

lemma returns_Inr [simp]: "returns (Inr x)" and returns_Inl [simp]: "\<not> returns (Inl e)"
  by (simp_all add: returns_def)

lemma returns_iff: "returns r \<longleftrightarrow> (\<exists>x. r = Inr x)"
  by (cases r) simp_all

lemma returns_bindE: "returns (bindE m f) \<longleftrightarrow> returns m \<and> (\<forall>x. m = Inr x \<longrightarrow> returns (f x))"
  by (cases m) (simp_all add: bindE_def)

lemma returns_collect: "(\<And>x. x \<in> set xs \<Longrightarrow> returns (f x)) \<Longrightarrow> returns (collect f xs)"
  by (induction xs) (auto simp: returns_bindE)

lemma returns_any_of_loop:
  "(\<And>x. x \<in> set xs \<Longrightarrow> returns (f x)) \<Longrightarrow> returns (any_of_loop f xs acc)"
  by (induction xs arbitrary: acc) (auto simp: returns_bindE)

lemma returns_bound_check:
  "num_of x \<noteq> None \<Longrightarrow> bound_ok kvs key \<Longrightarrow> cmp = num_lt \<or> cmp = num_gt
   \<Longrightarrow> returns (bound_check lib cmp x kvs key name msg)"
  by (auto simp: bound_check_def bound_ok_def returns_bindE num_lt_def num_gt_def split: option.splits)

lemma returns_check_string:
  "bound_ok kvs ''minLength'' \<Longrightarrow> bound_ok kvs ''maxLength'' \<Longrightarrow> returns (check_string lib name value kvs)"
  by (cases "value") (simp_all add: check_string_def returns_bindE returns_bound_check)

lemma num_of_numeric: "is_int value \<or> is_float value \<Longrightarrow> num_of value \<noteq> None"
  by (cases "value"; simp) (metis num_of.simps(3-7) option.distinct(1) pyfloat.exhaust)

lemma returns_check_number:
  "bound_ok kvs ''minimum'' \<Longrightarrow> bound_ok kvs ''maximum'' \<Longrightarrow> returns (check_number lib name value st kvs)"
  by (simp add: check_number_def returns_bindE returns_bound_check num_of_numeric)

lemma key_in_dict: "k \<in> fst ` set kvs \<longleftrightarrow> map_of kvs k \<noteq> None"
  by (simp add: map_of_eq_None_iff)

lemma is_str_iff: "is_str x \<longleftrightarrow> (\<exists>s. x = JStr s)"
  by (cases x) simp_all

lemma wf_schema_items:
  "wf_schema (JObj kvs) \<Longrightarrow> map_of kvs ''items'' = Some items \<Longrightarrow> wf_schema items"
  by simp

lemma wf_schema_properties:
  "wf_schema (JObj kvs) \<Longrightarrow> map_of kvs ''properties'' = Some properties
   \<Longrightarrow> \<exists>props. properties = JObj props \<and> (\<forall>p \<in> set props. wf_schema (snd p))"
  by (cases properties) simp_all

lemma wf_schema_required:
  "wf_schema (JObj kvs) \<Longrightarrow> map_of kvs ''required'' = Some required
   \<Longrightarrow> \<exists>rs. required = JArr rs \<and> (\<forall>r \<in> set rs. is_str r)"
  by (cases required) (simp_all add: list_all_iff)

lemma wf_schema_anyOf:
  "wf_schema (JObj kvs) \<Longrightarrow> map_of kvs ''anyOf'' = Some any_of
   \<Longrightarrow> \<exists>subs. any_of = JArr subs \<and> (\<forall>sub \<in> set subs. wf_schema sub)"
  by (cases any_of) simp_all

lemma wf_schema_bounds:
  "wf_schema (JObj kvs) \<Longrightarrow>
     bound_ok kvs ''minLength'' \<and> bound_ok kvs ''maxLength'' \<and> bound_ok kvs ''minimum''
     \<and> bound_ok kvs ''maximum'' \<and> bound_ok kvs ''minItems'' \<and> bound_ok kvs ''maxItems''"
  by simp

lemma returns_validate_property:
  "wf_schema schema \<Longrightarrow> returns (validate_property lib name value schema)"
proof (induction schema arbitrary: name "value" rule: measure_induct_rule [of size])
  case (less schema)
  from less.prems obtain kvs where schema: "schema = JObj kvs"
    by (cases schema) auto
  note wf = less.prems [unfolded schema]
  note bounds = wf_schema_bounds [OF wf]
  have IH: "returns (validate_property lib n v s)"
    if "size s < size (JObj kvs)" "wf_schema s" for s n v
    using less.IH [of s n v] that schema by simp
  have arr: "returns (check_array lib name value kvs)"
  proof (cases "value")
    case (JArr xs)
    have "returns (validate_property lib n v items)"
      if "map_of kvs ''items'' = Some items" for items n v
      using that IH [of items n v] size_json_lookup [of kvs "''items''" items]
            wf_schema_items [OF wf] by simp
    with JArr bounds show ?thesis
      by (subst check_array.simps)
         (auto simp: returns_bindE returns_bound_check intro!: returns_collect split: option.splits)
  qed (simp_all add: check_array.simps)
  have obj: "returns (check_object lib name value kvs)"
  proof (cases "value")
    case (JObj members)
    have props: "returns (collect (\<lambda>(prop_name, prop_spec).
                       case map_of members prop_name of
                         None \<Rightarrow> Inr []
                       | Some v \<Rightarrow> validate_property lib (name @ ''.'' @ prop_name) v prop_spec)
                     props)"
      if "map_of kvs ''properties'' = Some (JObj props)" for props
    proof (rule returns_collect)
      fix p assume p: "p \<in> set props"
      obtain k spec where ks: "p = (k, spec)" by (cases p)
      have "size spec < size (JObj kvs)"
        using that p ks size_json_lookup [of kvs "''properties''" "JObj props"]
              size_json_entry [of k spec props] by simp
      moreover have "wf_schema spec"
        using wf_schema_properties [OF wf that] p ks by auto
      ultimately have "returns (validate_property lib n v spec)" for n v
        by (rule IH)
      then show "returns (case p of (prop_name, prop_spec) \<Rightarrow>
                   case map_of members prop_name of
                     None \<Rightarrow> Inr []
                   | Some v \<Rightarrow> validate_property lib (name @ ''.'' @ prop_name) v prop_spec)"
        by (simp add: ks split: option.splits)
    qed
    have req: "returns (collect (\<lambda>required_prop.
                       bindE (py_in required_prop value) (\<lambda>present.
                       Inr (if \<not> present
                            then [''Missing required property '' @ name @ ''.''
                                  @ py_str lib required_prop]
                            else [])))
                     rs)"
      if "\<forall>r \<in> set rs. is_str r" for rs
      using that JObj by (intro returns_collect) (auto simp: returns_bindE is_str_iff)
    have P: "returns (case map_of kvs ''properties'' of
                 None \<Rightarrow> Inr []
               | Some properties \<Rightarrow>
                   bindE (py_items properties) (\<lambda>props.
                   collect (\<lambda>(prop_name, prop_spec).
                       case map_of members prop_name of
                         None \<Rightarrow> Inr []
                       | Some v \<Rightarrow> validate_property lib (name @ ''.'' @ prop_name) v prop_spec)
                     props))"
      using props wf_schema_properties [OF wf]
      by (cases "map_of kvs ''properties''") (auto simp: returns_bindE)
    have R: "returns (case map_of kvs ''required'' of
                 None \<Rightarrow> Inr []
               | Some required \<Rightarrow>
                   bindE (py_iter required) (\<lambda>required_props.
                   collect (\<lambda>required_prop.
                       bindE (py_in required_prop (JObj members)) (\<lambda>present.
                       Inr (if \<not> present
                            then [''Missing required property '' @ name @ ''.''
                                  @ py_str lib required_prop]
                            else [])))
                     required_props))"
      using req wf_schema_required [OF wf] JObj
      by (cases "map_of kvs ''required''") (auto simp: returns_bindE)
    show ?thesis
      unfolding JObj by (subst check_object.simps) (simp add: returns_bindE P R)
  qed (simp_all add: check_object.simps)
  have any: "returns (check_any_of lib name value kvs errors)" for errors
  proof (cases "map_of kvs ''anyOf''")
    case None
    then show ?thesis by (simp add: check_any_of.simps)
  next
    case (Some any_of)
    from wf_schema_anyOf [OF wf Some] obtain subs
      where subs: "any_of = JArr subs" "\<forall>sub \<in> set subs. wf_schema sub" by blast
    have "returns (validate_property lib name value sub)" if "sub \<in> set subs" for sub
    proof -
      have "size sub < size (JObj kvs)"
        using that Some subs size_json_lookup [of kvs "''anyOf''" "JArr subs"]
              size_json_elem [of sub subs] by simp
      then show ?thesis using subs that by (intro IH) auto
    qed
    then have "returns (any_of_loop (validate_property lib name value) subs [])"
      by (rule returns_any_of_loop)
    then show ?thesis
      by (subst check_any_of.simps) (auto simp: Some subs returns_bindE)
  qed
  show ?case
  proof (cases "value = JNull")
    case True
    then show ?thesis
      unfolding schema
      by (subst validate_property.simps) (auto simp: returns_bindE key_in_dict)
  next
    case False
    then show ?thesis
      unfolding schema
      by (subst validate_property.simps)
         (simp add: returns_bindE returns_check_string returns_check_number check_boolean_def
            bounds arr obj any)
  qed
qed

lemma collect_Inr_elem:
  "collect f xs = Inr es \<Longrightarrow> x \<in> set xs \<Longrightarrow> \<exists>e. f x = Inr e \<and> set e \<subseteq> set es"
proof (induction xs arbitrary: es)
  case Nil
  then show ?case by simp
next
  case (Cons y ys)
  from Cons.prems(1) obtain e rest where
    e: "f y = Inr e" and rest: "collect f ys = Inr rest" and es: "es = e @ rest"
    by (auto simp: bindE_def split: sum.splits)
  show ?case
  proof (cases "x = y")
    case True
    with e es show ?thesis by auto
  next
    case False
    with Cons.prems(2) have "x \<in> set ys" by simp
    from Cons.IH [OF rest this] es show ?thesis by auto
  qed
qed

subsection \<open>The parts of the validator\<close>

lemma bindE_Inr [simp]: "bindE (Inr x) f = f x"
  by (simp add: bindE_def)

lemma bindE_Inl [simp]: "bindE (Inl e) f = Inl e"
  by (simp add: bindE_def)

lemma validate_property_null:
  "validate_property lib name JNull (JObj kvs) =
     Inr (if (case map_of kvs ''nullable'' of None \<Rightarrow> False | Some n \<Rightarrow> truthy n)
          then [] else [''Property '' @ name @ '' cannot be null''])"
  by (subst validate_property.simps) (auto simp: key_in_dict split: option.splits)

lemma validate_property_untyped:
  "v \<noteq> JNull \<Longrightarrow> map_of kvs ''type'' = None \<Longrightarrow>
     validate_property lib name v (JObj kvs) = check_any_of lib name v kvs []"
  by (subst validate_property.simps) simp

lemma validate_property_string:
  "v \<noteq> JNull \<Longrightarrow> map_of kvs ''type'' = Some (JStr ''string'') \<Longrightarrow>
     validate_property lib name v (JObj kvs) =
       bindE (check_string lib name v kvs) (check_any_of lib name v kvs)"
  by (subst validate_property.simps) simp

lemma validate_property_number:
  "v \<noteq> JNull \<Longrightarrow> map_of kvs ''type'' = Some st \<Longrightarrow> st = JStr ''number'' \<or> st = JStr ''integer'' \<Longrightarrow>
     validate_property lib name v (JObj kvs) =
       bindE (check_number lib name v st kvs) (check_any_of lib name v kvs)"
  by (subst validate_property.simps) auto

lemma validate_property_boolean:
  "v \<noteq> JNull \<Longrightarrow> map_of kvs ''type'' = Some (JStr ''boolean'') \<Longrightarrow>
     validate_property lib name v (JObj kvs) =
       bindE (check_boolean name v) (check_any_of lib name v kvs)"
  by (subst validate_property.simps) simp

lemma validate_property_array:
  "v \<noteq> JNull \<Longrightarrow> map_of kvs ''type'' = Some (JStr ''array'') \<Longrightarrow>
     validate_property lib name v (JObj kvs) =
       bindE (check_array lib name v kvs) (check_any_of lib name v kvs)"
  by (subst validate_property.simps) simp

lemma validate_property_object:
  "v \<noteq> JNull \<Longrightarrow> map_of kvs ''type'' = Some (JStr ''object'') \<Longrightarrow>
     validate_property lib name v (JObj kvs) =
       bindE (check_object lib name v kvs) (check_any_of lib name v kvs)"
  by (subst validate_property.simps) simp

lemma check_any_of_absent:
  "map_of kvs ''anyOf'' = None \<Longrightarrow> check_any_of lib name v kvs errors = Inr errors"
  by (subst check_any_of.simps) simp

lemma bindE_eq_Inr: "bindE m f = Inr y \<longleftrightarrow> (\<exists>x. m = Inr x \<and> f x = Inr y)"
  by (cases m) simp_all

lemma bound_check_shape:
  "bound_check lib cmp x kvs key name msg = Inr out \<Longrightarrow> e \<in> set out
   \<Longrightarrow> \<exists>b. e = ''Property '' @ name @ msg @ b @ '')''"
  by (auto simp: bound_check_def bindE_eq_Inr split: option.splits if_splits)

lemma check_number_float_integer:
  "check_number lib name (JFloat f) (JStr ''integer'') kvs = Inr out
   \<Longrightarrow> ''Property '' @ name @ '' should be an integer'' \<in> set out"
  by (auto simp: check_number_def bindE_eq_Inr)


lemma check_any_of_shape:
  assumes "check_any_of lib name v kvs errors = Inr out"
  shows "\<exists>extra. out = errors @ extra \<and>
           (\<forall>e \<in> set extra. e = ''Property '' @ name @ '' does not match any allowed schemas''
                            \<or> (\<exists>e'. e = ''  - '' @ e'))"
proof (cases "map_of kvs ''anyOf''")
  case None
  with assms show ?thesis by (simp add: check_any_of_absent)
next
  case (Some any_of)
  with assms obtain subs valid any_errors where
    "any_of_loop (validate_property lib name v) subs [] = Inr (valid, any_errors)" and
    out: "out = (if \<not> valid
                 then errors @ [''Property '' @ name @ '' does not match any allowed schemas'']
                      @ map (\<lambda>err. ''  - '' @ err) any_errors
                 else errors)"
    by (subst (asm) check_any_of.simps) (auto simp: bindE_eq_Inr split: if_splits)
  show ?thesis
  proof (cases valid)
    case True
    with out show ?thesis by simp
  next
    case False
    with out show ?thesis by auto
  qed
qed



lemma check_any_of_mem:
  assumes "check_any_of lib name v kvs errors = Inr out" and "e \<in> set out"
  shows "e \<in> set errors
         \<or> e = ''Property '' @ name @ '' does not match any allowed schemas''
         \<or> (\<exists>e'. e = ''  - '' @ e')"
proof -
  from check_any_of_shape [OF assms(1)] obtain extra where
    out: "out = errors @ extra" and
    extra: "\<forall>e \<in> set extra. e = ''Property '' @ name @ '' does not match any allowed schemas''
                            \<or> (\<exists>e'. e = ''  - '' @ e')"
    by blast
  from assms(2) out consider "e \<in> set errors" | "e \<in> set extra" by auto
  then show ?thesis
  proof cases
    case 1
    then show ?thesis by simp
  next
    case 2
    with extra have "e = ''Property '' @ name @ '' does not match any allowed schemas''
                     \<or> (\<exists>e'. e = ''  - '' @ e')"
      by (rule bspec)
    then show ?thesis by simp
  qed
qed

lemma check_any_of_keeps:
  assumes "check_any_of lib name v kvs errors = Inr out"
  shows "set errors \<subseteq> set out"
proof -
  from check_any_of_shape [OF assms] obtain extra where "out = errors @ extra"
    by blast
  then show ?thesis by simp
qed

lemma check_number_int_shape:
  assumes "check_number lib name v st kvs = Inr out" and "is_int v" and "e \<in> set out"
  shows "\<exists>b. e = ''Property '' @ name @ '' is too small (min: '' @ b @ '')''
             \<or> e = ''Property '' @ name @ '' is too large (max: '' @ b @ '')''"
proof -
  from assms(1,2) obtain small large where
    small: "bound_check lib num_lt v kvs ''minimum'' name '' is too small (min: '' = Inr small" and
    large: "bound_check lib num_gt v kvs ''maximum'' name '' is too large (max: '' = Inr large" and
    out: "out = small @ large"
    by (auto simp: check_number_def bindE_eq_Inr)
  from assms(3) out consider "e \<in> set small" | "e \<in> set large" by auto
  then show ?thesis
  proof cases
    case 1
    from bound_check_shape [OF small 1] show ?thesis by blast
  next
    case 2
    from bound_check_shape [OF large 2] show ?thesis by blast
  qed
qed

subsection \<open>A fragment with and without its alternatives\<close>

lemma map_of_without_key:
  "map_of (without_key k kvs) k' = (if k' = k then None else map_of kvs k')"
  by (induction kvs) (auto simp: without_key_def)

lemma bindE_return [simp]: "bindE m Inr = m" "bindE m (\<lambda>x. Inr x) = m"
  by (cases m; simp)+

lemma check_string_without_any_of:
  "check_string lib name v (without_key ''anyOf'' kvs) = check_string lib name v kvs"
  by (cases v) (simp_all add: check_string_def bound_check_def map_of_without_key)

lemma check_number_without_any_of:
  "check_number lib name v st (without_key ''anyOf'' kvs) = check_number lib name v st kvs"
  by (simp add: check_number_def bound_check_def map_of_without_key)

lemma check_array_without_any_of:
  "check_array lib name v (without_key ''anyOf'' kvs) = check_array lib name v kvs"
  by (cases v)
     (simp_all add: check_array.simps [of lib name _ kvs]
        check_array.simps [of lib name _ "without_key ''anyOf'' kvs"]
        bound_check_def map_of_without_key)

lemma check_object_without_any_of:
  "check_object lib name v (without_key ''anyOf'' kvs) = check_object lib name v kvs"
  by (cases v)
     (simp_all add: check_object.simps [of lib name _ kvs]
        check_object.simps [of lib name _ "without_key ''anyOf'' kvs"]
        map_of_without_key)

lemma check_any_of_without_any_of:
  "check_any_of lib name v (without_key ''anyOf'' kvs) = Inr"
  by (rule ext) (simp add: check_any_of_absent map_of_without_key)

lemma validate_property_split:
  assumes "v \<noteq> JNull"
  shows "validate_property lib name v (JObj kvs) =
           bindE (validate_property lib name v (JObj (without_key ''anyOf'' kvs)))
                 (check_any_of lib name v kvs)"
  using assms
  by (simp add: validate_property.simps [of lib name v "JObj kvs"]
        validate_property.simps [of lib name v "JObj (without_key ''anyOf'' kvs)"]
        map_of_without_key check_string_without_any_of check_number_without_any_of
        check_array_without_any_of check_object_without_any_of check_any_of_without_any_of)

subsection \<open>The loops\<close>

lemma collect_list_all2:
  "list_all2 (\<lambda>x e. f x = Inr e) xs es \<Longrightarrow> collect f xs = Inr (concat es)"
  by (induction xs es rule: list_all2_induct) simp_all

lemma collect_enumerate:
  assumes "length es = length xs"
      and "\<forall>i < length xs. f (i, xs ! i) = Inr (es ! i)"
  shows "collect f (enumerate 0 xs) = Inr (concat es)"
proof (rule collect_list_all2)
  show "list_all2 (\<lambda>x e. f x = Inr e) (enumerate 0 xs) es"
    using assms by (simp add: list_all2_conv_all_nth nth_enumerate_eq)
qed

lemma any_of_loop_success:
  assumes "j < length subs" and "f (subs ! j) = Inr []"
      and "\<forall>i < j. \<exists>e. f (subs ! i) = Inr e \<and> e \<noteq> []"
  shows "\<exists>errs. any_of_loop f subs acc = Inr (True, errs)"
  using assms
proof (induction subs arbitrary: j acc)
  case Nil
  then show ?case by simp
next
  case (Cons s subs)
  show ?case
  proof (cases j)
    case 0
    with Cons.prems(2) show ?thesis by simp
  next
    case (Suc k)
    from Cons.prems(3) Suc obtain e where e: "f s = Inr e" "e \<noteq> []"
      by fastforce
    have "\<exists>errs. any_of_loop f subs (acc @ e) = Inr (True, errs)"
    proof (rule Cons.IH [of k])
      show "k < length subs" using Cons.prems(1) Suc by simp
      show "f (subs ! k) = Inr []" using Cons.prems(2) Suc by simp
      show "\<forall>i<k. \<exists>e. f (subs ! i) = Inr e \<and> e \<noteq> []"
      proof (intro allI impI)
        fix i assume "i < k"
        then have "Suc i < j" using Suc by simp
        with Cons.prems(3) have "\<exists>e. f ((s # subs) ! Suc i) = Inr e \<and> e \<noteq> []" by blast
        then show "\<exists>e. f (subs ! i) = Inr e \<and> e \<noteq> []" by simp
      qed
    qed
    with e show ?thesis by simp
  qed
qed

lemma any_of_loop_failure:
  "list_all2 (\<lambda>s e. f s = Inr e \<and> e \<noteq> []) subs es
   \<Longrightarrow> any_of_loop f subs acc = Inr (False, acc @ concat es)"
  by (induction subs es arbitrary: acc rule: list_all2_induct) simp_all

lemma check_any_of_list:
  "map_of kvs ''anyOf'' = Some (JArr subs) \<Longrightarrow>
     check_any_of lib name v kvs errors =
       bindE (any_of_loop (validate_property lib name v) subs []) (\<lambda>(any_valid, any_errors).
         if \<not> any_valid
         then Inr (errors @ [''Property '' @ name @ '' does not match any allowed schemas'']
                   @ map (\<lambda>err. ''  - '' @ err) any_errors)
         else Inr errors)"
  by (subst check_any_of.simps) simp

subsection \<open>Booleans as numbers\<close>

lemma check_any_of_absent_fun:
  "map_of kvs ''anyOf'' = None \<Longrightarrow> check_any_of lib name v kvs = Inr"
  by (rule ext) (simp add: check_any_of_absent)

lemma num_of_bool: "num_of (JBool b) = num_of (JInt (if b then 1 else 0))"
  by simp

lemma num_cmp_bool:
  "num_lt (JBool b) x = num_lt (JInt (if b then 1 else 0)) x"
  "num_gt (JBool b) x = num_gt (JInt (if b then 1 else 0)) x"
  unfolding num_lt_def num_gt_def num_of_bool by (rule refl)+

lemma bound_check_bool:
  "cmp = num_lt \<or> cmp = num_gt \<Longrightarrow>
     bound_check lib cmp (JBool b) kvs key name msg
       = bound_check lib cmp (JInt (if b then 1 else 0)) kvs key name msg"
  unfolding bound_check_def
  by (cases "map_of kvs key") (auto simp only: num_cmp_bool option.case)

lemma check_number_bool:
  "check_number lib name (JBool b) st kvs = check_number lib name (JInt (if b then 1 else 0)) st kvs"
  by (simp add: check_number_def bound_check_bool)

lemma check_boolean_not_bool:
  "\<not> is_bool v \<Longrightarrow> check_boolean name v = Inr [''Property '' @ name @ '' should be a boolean'']"
  by (simp add: check_boolean_def)

subsection \<open>Templates and operations\<close>

lemma sub_params_spell:
  "list_all well_spelled pieces \<Longrightarrow> sub_params (spell pieces) = map tok_of pieces"
proof (induction pieces)
  case Nil
  then show ?case by simp
next
  case (Cons p ps)
  show ?case
  proof (cases p)
    case (Text c)
    with Cons show ?thesis by simp
  next
    case (Hole name)
    with Cons.prems have name: "name \<noteq> []" "\<And>d. d \<in> set name \<Longrightarrow> d \<noteq> CHR ''}''"
      by auto
    have t: "takeWhile (\<lambda>d. d \<noteq> CHR ''}'') (name @ CHR ''}'' # spell ps) = name"
      using name(2) by (simp add: takeWhile_append2)
    have d: "dropWhile (\<lambda>d. d \<noteq> CHR ''}'') (name @ CHR ''}'' # spell ps) = CHR ''}'' # spell ps"
      using name(2) by (simp add: dropWhile_append2)
    from Cons Hole show ?thesis
      by (simp add: t d name(1))
  qed
qed

lemma literal_well_spelled: "literal_piece p \<Longrightarrow> well_spelled p"
  by (cases p) (auto simp: regex_special_def)

lemma literal_plain: "literal_piece p \<Longrightarrow> plain_tok (tok_of p)"
  by (cases p) auto

lemma literal_template_plain:
  assumes "literal_template template"
  shows "list_all plain_tok (sub_params template)"
proof -
  from assms obtain pieces where t: "template = spell pieces" and l: "list_all literal_piece pieces"
    by (auto simp: literal_template_def)
  from l have "list_all well_spelled pieces"
    by (auto simp: list_all_iff literal_well_spelled)
  then have "sub_params template = map tok_of pieces"
    unfolding t by (rule sub_params_spell)
  with l show ?thesis
    by (auto simp: list_all_iff literal_plain)
qed

lemma fills_param_iff:
  "fills (Param # ts) s \<longleftrightarrow> (\<exists>seg r. s = seg @ r \<and> segment seg \<and> fills ts r)"
proof (induction s)
  case Nil
  then show ?case by (simp add: segment_def)
next
  case (Cons d s)
  show ?case
  proof
    assume "fills (Param # ts) (d # s)"
    then have d: "d \<noteq> CHR ''/''" and m: "fills ts s \<or> fills (Param # ts) s" by auto
    from m show "\<exists>seg r. d # s = seg @ r \<and> segment seg \<and> fills ts r"
    proof
      assume "fills ts s"
      with d have "d # s = [d] @ s \<and> segment [d] \<and> fills ts s" by (simp add: segment_def)
      then show ?thesis by blast
    next
      assume "fills (Param # ts) s"
      with Cons.IH obtain seg r where "s = seg @ r" "segment seg" "fills ts r" by blast
      with d have "d # s = (d # seg) @ r \<and> segment (d # seg) \<and> fills ts r"
        by (simp add: segment_def)
      then show ?thesis by blast
    qed
  next
    assume "\<exists>seg r. d # s = seg @ r \<and> segment seg \<and> fills ts r"
    then obtain seg r where e: "d # s = seg @ r" and seg: "segment seg" and r: "fills ts r"
      by blast
    from seg e obtain seg' where seg': "seg = d # seg'" "s = seg' @ r"
      by (cases seg) (auto simp: segment_def)
    with seg have d: "d \<noteq> CHR ''/''" by (auto simp: segment_def)
    show "fills (Param # ts) (d # s)"
    proof (cases "seg' = []")
      case True
      with seg' r d show ?thesis by simp
    next
      case False
      with seg seg' have "segment seg'" by (auto simp: segment_def)
      with seg' r Cons.IH have "fills (Param # ts) s" by blast
      with d show ?thesis by simp
    qed
  qed
qed

lemma fills_iff:
  "fills (map tok_of pieces) s \<longleftrightarrow>
     (\<exists>segs. length segs = holes pieces \<and> list_all segment segs \<and> s = fill pieces segs)"
proof (induction pieces arbitrary: s)
  case Nil
  show ?case by simp
next
  case (Cons p ps)
  show ?case
  proof (cases p)
    case (Text c)
    show ?thesis
      unfolding Text by (cases s) (auto simp: Cons.IH)
  next
    case (Hole name)
    show ?thesis
    proof
      assume "fills (map tok_of (p # ps)) s"
      then obtain seg r where s: "s = seg @ r" and seg: "segment seg" and r: "fills (map tok_of ps) r"
        unfolding Hole by (auto simp: fills_param_iff simp del: fills.simps)
      from r obtain segs where "length segs = holes ps" "list_all segment segs" "r = fill ps segs"
        unfolding Cons.IH by blast
      with s seg have "length (seg # segs) = holes (p # ps) \<and> list_all segment (seg # segs)
                       \<and> s = fill (p # ps) (seg # segs)"
        by (simp add: Hole)
      then show "\<exists>segs. length segs = holes (p # ps) \<and> list_all segment segs \<and> s = fill (p # ps) segs"
        by blast
    next
      assume "\<exists>segs. length segs = holes (p # ps) \<and> list_all segment segs \<and> s = fill (p # ps) segs"
      then obtain segs where len: "length segs = Suc (holes ps)" and ok: "list_all segment segs"
        and s: "s = fill (p # ps) segs"
        by (auto simp: Hole)
      from len obtain seg rest where segs: "segs = seg # rest" by (cases segs) auto
      from len ok segs have "fills (map tok_of ps) (fill ps rest)"
        unfolding Cons.IH by auto
      moreover from s segs have "s = seg @ fill ps rest" by (simp add: Hole)
      moreover from ok segs have "segment seg" by simp
      ultimately have "\<exists>seg r. s = seg @ r \<and> segment seg \<and> fills (map tok_of ps) r" by blast
      then show "fills (map tok_of (p # ps)) s"
        unfolding Hole by (simp add: fills_param_iff del: fills.simps)
    qed
  qed
qed

lemma template_matches_iff:
  "template_matches template path \<longleftrightarrow>
     (\<exists>pieces. template = spell pieces \<and> list_all well_spelled pieces)
     \<and> fills (sub_params template) path"
proof
  assume "template_matches template path"
  then obtain pieces segs where t: "template = spell pieces" and w: "list_all well_spelled pieces"
    and segs: "length segs = holes pieces" "list_all segment segs" "path = fill pieces segs"
    by (auto simp: template_matches_def)
  from segs have "fills (map tok_of pieces) path"
    unfolding fills_iff by blast
  with t w show "(\<exists>pieces. template = spell pieces \<and> list_all well_spelled pieces)
     \<and> fills (sub_params template) path"
    by (auto simp: sub_params_spell)
next
  assume a: "(\<exists>pieces. template = spell pieces \<and> list_all well_spelled pieces)
     \<and> fills (sub_params template) path"
  then obtain pieces where t: "template = spell pieces" and w: "list_all well_spelled pieces"
    by blast
  from a t w have "fills (map tok_of pieces) path"
    by (simp add: sub_params_spell)
  then obtain segs where "length segs = holes pieces" "list_all segment segs" "path = fill pieces segs"
    unfolding fills_iff by blast
  with t w show "template_matches template path"
    unfolding template_matches_def by blast
qed

lemma match_toks_fills:
  "list_all plain_tok toks \<Longrightarrow> s = [] \<or> last s \<noteq> CHR 0x0A \<Longrightarrow> match_toks toks s = fills toks s"
proof (induction toks s rule: fills.induct)
  case (1 s)
  then show ?case by auto
next
  case (2 c ts s)
  show ?case
  proof (cases s)
    case Nil
    then show ?thesis by simp
  next
    case (Cons d rest)
    with 2 have "match_toks ts rest = fills ts rest"
      by (auto split: if_splits)
    moreover from "2.prems" have "c \<noteq> CHR ''.''"
      by (auto simp: regex_special_def)
    ultimately show ?thesis using Cons by simp
  qed
next
  case (3 ts s)
  show ?case
  proof (cases s)
    case Nil
    then show ?thesis by simp
  next
    case (Cons d rest)
    with "3.prems" have r: "rest = [] \<or> last rest \<noteq> CHR 0x0A" by (auto split: if_splits)
    from "3.prems" have ts: "list_all plain_tok ts" by simp
    from "3.IH"(1) [OF Cons ts r] "3.IH"(2) [OF Cons "3.prems"(1) r] Cons
    show ?thesis by simp
  qed
qed

lemma match_path_pattern_literal:
  assumes "literal_template template" and "path = [] \<or> last path \<noteq> CHR 0x0A"
  shows "match_path_pattern lib path template = Inr (template_matches template path)"
proof -
  from assms(1) obtain pieces where t: "template = spell pieces" and l: "list_all literal_piece pieces"
    by (auto simp: literal_template_def)
  from l have w: "list_all well_spelled pieces"
    by (auto simp: list_all_iff literal_well_spelled)
  have plain: "list_all plain_tok (sub_params template)"
    using assms(1) by (rule literal_template_plain)
  then have known: "list_all known_tok (sub_params template)"
    by (auto simp: list_all_iff elim!: plain_tok.elims)
  have "template_matches template path = fills (sub_params template) path"
    using t w by (auto simp: template_matches_iff)
  with known show ?thesis
    by (simp add: match_path_pattern_def match_toks_fills [OF plain assms(2)])
qed

lemma py_in_item:
  "is_dict item \<Longrightarrow> py_in (JStr m) item = Inr (operation_of item m \<noteq> None)"
  by (cases item) (simp_all add: operation_of_def key_in_dict)

lemma py_getitem_item:
  "operation_of item m = Some operation \<Longrightarrow> py_getitem item m = Inr operation"
  by (cases item) (simp_all add: operation_of_def)

lemma scan_paths_find:
  "wf_templates templates \<Longrightarrow> path = [] \<or> last path \<noteq> CHR 0x0A \<Longrightarrow>
     scan_paths lib m path templates =
       (case find (\<lambda>(template, item).
                template_matches template path \<and> operation_of item m \<noteq> None)
              templates of
          None \<Rightarrow> Inr JNull
        | Some (template, item) \<Rightarrow>
            (case operation_of item m of
               None \<Rightarrow> Inr JNull
             | Some operation \<Rightarrow> extract_response_schema operation))"
proof (induction templates)
  case Nil
  then show ?case by simp
next
  case (Cons p templates)
  obtain template item where p: "p = (template, item)" by (cases p)
  from Cons.prems p have item: "is_dict item" and literal: "literal_template template"
    and rest: "wf_templates templates"
    by (simp_all add: wf_templates_def)
  note IH = Cons.IH [OF rest Cons.prems(2)]
  note test = match_path_pattern_literal [OF literal Cons.prems(2)]
  show ?case
  proof (cases "template_matches template path \<and> operation_of item m \<noteq> None")
    case True
    then obtain operation where op: "operation_of item m = Some operation" by auto
    with True show ?thesis
      by (simp add: p test py_in_item [OF item] py_getitem_item [OF op])
  next
    case False
    then show ?thesis
      by (auto simp: p test py_in_item [OF item] IH)
  qed
qed

lemma rstrip_slash_core:
  assumes "core = [] \<or> last core \<noteq> CHR ''/''"
  shows "rstrip_slash (core @ replicate k CHR ''/'') = core"
proof -
  have "dropWhile (\<lambda>c. c = CHR ''/'') (replicate k CHR ''/'' @ rev core)
        = dropWhile (\<lambda>c. c = CHR ''/'') (rev core)"
    by (rule dropWhile_append2) simp
  also have "\<dots> = rev core"
    using assms by (cases core rule: rev_cases) simp_all
  finally have "dropWhile (\<lambda>c. c = CHR ''/'') (replicate k CHR ''/'' @ rev core) = rev core" .
  then show ?thesis by (simp add: rstrip_slash_def)
qed

lemma rstrip_slash_split:
  "\<exists>k. path = rstrip_slash path @ replicate k CHR ''/''"
proof -
  have "rev path = takeWhile (\<lambda>c. c = CHR ''/'') (rev path) @ dropWhile (\<lambda>c. c = CHR ''/'') (rev path)"
    by simp
  moreover have "takeWhile (\<lambda>c. c = CHR ''/'') (rev path)
                 = replicate (length (takeWhile (\<lambda>c. c = CHR ''/'') (rev path))) CHR ''/''"
    by (rule replicate_length_same [symmetric]) (auto dest: set_takeWhileD)
  ultimately have "rev path = replicate (length (takeWhile (\<lambda>c. c = CHR ''/'') (rev path))) CHR ''/''
                     @ dropWhile (\<lambda>c. c = CHR ''/'') (rev path)"
    by simp
  then have "rev (rev path) = rev (replicate (length (takeWhile (\<lambda>c. c = CHR ''/'') (rev path))) CHR ''/''
                     @ dropWhile (\<lambda>c. c = CHR ''/'') (rev path))"
    by (rule arg_cong)
  then show ?thesis
    by (auto simp: rstrip_slash_def)
qed

lemma rstrip_slash_last: "rstrip_slash path = [] \<or> last (rstrip_slash path) \<noteq> CHR ''/''"
proof (cases "dropWhile (\<lambda>c. c = CHR ''/'') (rev path)")
  case Nil
  then show ?thesis by (simp add: rstrip_slash_def)
next
  case (Cons c cs)
  then have "c \<noteq> CHR ''/''"
    using hd_dropWhile [of "\<lambda>c. c = CHR ''/''" "rev path"] by auto
  with Cons show ?thesis by (simp add: rstrip_slash_def)
qed

lemma normalize_path_core:
  "normalize_path path =
     (if rstrip_slash path \<noteq> [] \<and> hd (rstrip_slash path) = CHR ''/''
      then rstrip_slash path else CHR ''/'' # rstrip_slash path)"
  by (cases "rstrip_slash path") (simp_all add: normalize_path_def)

lemma normalized_normalize_path: "normalized path (normalize_path path)"
  unfolding normalized_def
  using rstrip_slash_split [of path] rstrip_slash_last [of path] normalize_path_core [of path]
  by blast

lemma normalized_unique:
  assumes "normalized path p"
  shows "p = normalize_path path"
proof -
  from assms obtain core k where path: "path = core @ replicate k CHR ''/''"
    and core: "core = [] \<or> last core \<noteq> CHR ''/''"
    and p: "p = (if core \<noteq> [] \<and> hd core = CHR ''/'' then core else CHR ''/'' # core)"
    unfolding normalized_def by blast
  have "rstrip_slash path = core"
    unfolding path using core by (rule rstrip_slash_core)
  with p show ?thesis
    by (simp only: normalize_path_core)
qed

lemma bindE_early_return:
  "bindE (bindE m (\<lambda>r. Inr (Some r))) (case_option x Inr) = m"
  by (cases m) simp_all

lemma get_schema_for_endpoint_resolve:
  assumes "doc \<noteq> []" and "registered doc = Some templates" and "wf_templates templates"
    and "last (normalize_path path) \<noteq> CHR 0x0A"
  shows "get_schema_for_endpoint lib (JObj doc) method path =
           (case resolve_operation templates (lower method) (normalize_path path) of
              None \<Rightarrow> Inr JNull
            | Some operation \<Rightarrow> extract_response_schema operation)"
proof -
  let ?p = "normalize_path path" and ?m = "lower method"
  let ?exact = "\<lambda>registered.
      if registered then
        bindE (py_getitem (JObj doc) ''paths'') (\<lambda>paths.
        bindE (py_getitem paths ?p) (\<lambda>endpoint_spec.
        bindE (py_in (JStr ?m) endpoint_spec) (\<lambda>has_method.
        if has_method
        then bindE (py_getitem endpoint_spec ?m) (\<lambda>method_spec.
             bindE (extract_response_schema method_spec) (\<lambda>r. Inr (Some r)))
        else Inr None)))
      else Inr None"
  have paths: "py_get (JObj doc) ''paths'' (JObj []) = Inr (JObj templates)"
    using assms(2) by (auto simp: registered_def split: option.splits json.splits)
  have general: "get_schema_for_endpoint lib (JObj doc) method path =
      bindE (?exact (map_of templates ?p \<noteq> None))
        (case_option (scan_paths lib ?m ?p templates) Inr)"
    using assms(1)
    by (simp add: get_schema_for_endpoint_def Let_def paths key_in_dict del: py_get.simps)
  have items: "is_dict item" if "map_of templates ?p = Some item" for item
    using that assms(3) by (auto simp: wf_templates_def dest!: map_of_SomeD)
  have reg: "map_of doc ''paths'' = Some (JObj templates)" if "map_of templates ?p = Some item" for item
    using assms(2) that by (auto simp: registered_def split: option.splits json.splits)
  have lf: "?p = [] \<or> last ?p \<noteq> CHR 0x0A"
    using assms(4) by simp
  show ?thesis
  proof (cases "case map_of templates ?p of None \<Rightarrow> None | Some item \<Rightarrow> operation_of item ?m")
    case (Some operation)
    then obtain item where item: "map_of templates ?p = Some item"
      and op: "operation_of item ?m = Some operation"
      by (auto split: option.splits)
    have "?exact (map_of templates ?p \<noteq> None)
          = bindE (extract_response_schema operation) (\<lambda>r. Inr (Some r))"
      using item op reg [OF item]
      by (simp add: py_in_item [OF items [OF item]] py_getitem_item [OF op])
    then have "get_schema_for_endpoint lib (JObj doc) method path
               = extract_response_schema operation"
      by (simp only: general bindE_early_return)
    with Some show ?thesis
      by (simp add: resolve_operation_def)
  next
    case None
    have "?exact (map_of templates ?p \<noteq> None) = Inr None"
    proof (cases "map_of templates ?p")
      case (Some item)
      with None have no: "operation_of item ?m = None" by simp
      from Some no reg [OF Some] show ?thesis
        by (simp add: py_in_item [OF items [OF Some]])
    qed simp
    then have "get_schema_for_endpoint lib (JObj doc) method path
               = scan_paths lib ?m ?p templates"
      by (simp only: general bindE_Inr option.case)
    with None show ?thesis
      by (simp add: resolve_operation_def scan_paths_find [OF assms(3) lf]
            split: option.splits prod.splits)
  qed
qed

lemma status_step:
  assumes "case map_of rs code of None \<Rightarrow> True | Some spec \<Rightarrow> wf_response spec"
  shows "status_loop (JObj rs) (code # rest) =
           (case json_body (JObj rs) code of
              Some media \<Rightarrow> Inr (declared_schema media)
            | None \<Rightarrow> status_loop (JObj rs) rest)"
proof (cases "map_of rs code")
  case None
  then show ?thesis by (simp add: json_body_def key_in_dict)
next
  case (Some spec)
  with assms obtain kvs where spec: "spec = JObj kvs" and wf: "wf_response (JObj kvs)"
    by (cases spec) (auto simp: wf_response_def)
  show ?thesis
  proof (cases "map_of kvs ''content''")
    case None
    with Some spec show ?thesis by (simp add: json_body_def key_in_dict)
  next
    case (Some c)
    with wf obtain content where content: "c = JObj content"
      by (cases c) (auto simp: wf_response_def)
    show ?thesis
    proof (cases "map_of content ''application/json''")
      case None
      with \<open>map_of rs code = Some spec\<close> spec Some content show ?thesis
        by (simp add: json_body_def key_in_dict)
    next
      case (Some media)
      with wf \<open>map_of kvs ''content'' = Some c\<close> content obtain m where m: "media = JObj m"
        by (cases media) (auto simp: wf_response_def)
      with \<open>map_of rs code = Some spec\<close> spec \<open>map_of kvs ''content'' = Some c\<close> content Some
      show ?thesis
        by (simp add: json_body_def key_in_dict declared_schema_def)
    qed
  qed
qed

lemma extract_response_schema_first:
  assumes "wf_operation (JObj operation)"
  shows "extract_response_schema (JObj operation) = Inr (first_json_schema operation)"
proof -
  from assms obtain rs where rs: "responses_of operation = JObj rs"
    and c200: "case map_of rs ''200'' of None \<Rightarrow> True | Some spec \<Rightarrow> wf_response spec"
    and c201: "case map_of rs ''201'' of None \<Rightarrow> True | Some spec \<Rightarrow> wf_response spec"
    by (cases "responses_of operation") (auto simp: wf_operation_def)
  have "py_get (JObj operation) ''responses'' (JObj []) = Inr (JObj rs)"
    using rs by (simp add: responses_of_def)
  then have "extract_response_schema (JObj operation) = status_loop (JObj rs) [''200'', ''201'']"
    by (simp add: extract_response_schema_def del: py_get.simps)
  also have "\<dots> = Inr (first_json_schema operation)"
    unfolding status_step [OF c200] status_step [OF c201]
    by (simp add: first_json_schema_def rs split: option.splits)
  finally show ?thesis .
qed

section \<open>Claims\<close>

text \<open>
  C1, for values other than null. For every value other than null and every fragment that carries an
  \<^verbatim>\<open>anyOf\<close> list, the alternatives are tried in their order. \<open>errors\<close> are the
  errors of the fragment without its \<^verbatim>\<open>anyOf\<close>. If some alternative returns no
  error and every alternative before it returns some, the fragment returns just
  \<open>errors\<close>: the alternatives contribute nothing and the errors of the failed ones
  are dropped. If every alternative returns some errors, the fragment returns
  \<open>errors\<close>, then the one summary line, then every error of every alternative in
  order, each behind the prefix of two blanks, a dash and a blank.
\<close>

theorem any_of_semantics:
  assumes "v \<noteq> JNull" and "map_of kvs ''anyOf'' = Some (JArr subs)"
      and "validate_property lib name v (JObj (without_key ''anyOf'' kvs)) = Inr errors"
  shows "(\<forall>j. j < length subs \<and> validate_property lib name v (subs ! j) = Inr []
              \<and> (\<forall>i < j. \<exists>e. validate_property lib name v (subs ! i) = Inr e \<and> e \<noteq> [])
            \<longrightarrow> validate_property lib name v (JObj kvs) = Inr errors)
       \<and> (\<forall>es. length es = length subs
              \<and> (\<forall>i < length subs. validate_property lib name v (subs ! i) = Inr (es ! i)
                                       \<and> es ! i \<noteq> [])
            \<longrightarrow> validate_property lib name v (JObj kvs) =
                  Inr (errors @ [''Property '' @ name @ '' does not match any allowed schemas'']
                       @ map (\<lambda>err. ''  - '' @ err) (concat es)))"
proof (intro conjI allI impI)
  fix j
  assume j: "j < length subs \<and> validate_property lib name v (subs ! j) = Inr []
              \<and> (\<forall>i < j. \<exists>e. validate_property lib name v (subs ! i) = Inr e \<and> e \<noteq> [])"
  then obtain errs where
    "any_of_loop (validate_property lib name v) subs [] = Inr (True, errs)"
    using any_of_loop_success [of j subs "validate_property lib name v" "[]"] by blast
  then have "check_any_of lib name v kvs errors = Inr errors"
    by (simp add: check_any_of_list [OF assms(2)])
  then show "validate_property lib name v (JObj kvs) = Inr errors"
    by (subst validate_property_split [OF assms(1)]) (simp add: assms(3))
next
  fix es
  assume es: "length es = length subs
              \<and> (\<forall>i < length subs. validate_property lib name v (subs ! i) = Inr (es ! i)
                                       \<and> es ! i \<noteq> [])"
  then have "list_all2 (\<lambda>s e. validate_property lib name v s = Inr e \<and> e \<noteq> []) subs es"
    by (simp add: list_all2_conv_all_nth)
  then have "any_of_loop (validate_property lib name v) subs [] = Inr (False, [] @ concat es)"
    by (rule any_of_loop_failure)
  then have "check_any_of lib name v kvs errors =
               Inr (errors @ [''Property '' @ name @ '' does not match any allowed schemas'']
                    @ map (\<lambda>err. ''  - '' @ err) (concat es))"
    by (simp add: check_any_of_list [OF assms(2)])
  then show "validate_property lib name v (JObj kvs) =
               Inr (errors @ [''Property '' @ name @ '' does not match any allowed schemas'']
                    @ map (\<lambda>err. ''  - '' @ err) (concat es))"
    by (subst validate_property_split [OF assms(1)]) (simp add: assms(3))
qed

text \<open>
  The theorem at the schema of the spec's example: an empty list matches neither
  alternative and gets the summary and both type errors; the integer 5 fails the first
  alternative, matches the second and gets no error.
\<close>

theorem any_of_semantics_witness:
  "JArr [] \<noteq> JNull
   \<and> map_of [(''anyOf'', JArr [JObj [(''type'', JStr ''string'')], JObj [(''type'', JStr ''integer'')]])]
        ''anyOf''
       = Some (JArr [JObj [(''type'', JStr ''string'')], JObj [(''type'', JStr ''integer'')]])
   \<and> validate_property example_lib ''x'' (JArr [])
         (JObj [(''anyOf'', JArr [JObj [(''type'', JStr ''string'')],
                                  JObj [(''type'', JStr ''integer'')]])])
       = Inr [''Property x does not match any allowed schemas'',
              ''  - Property x should be a string'',
              ''  - Property x should be a number'']
   \<and> validate_property example_lib ''x'' (JInt 5)
         (JObj [(''anyOf'', JArr [JObj [(''type'', JStr ''string'')],
                                  JObj [(''type'', JStr ''integer'')]])])
       = Inr []"
proof -
  let ?subs = "[JObj [(''type'', JStr ''string'')], JObj [(''type'', JStr ''integer'')]]"
  let ?kvs = "[(''anyOf'', JArr ?subs)]"
  have any: "map_of ?kvs ''anyOf'' = Some (JArr ?subs)"
    by simp
  have plain: "validate_property example_lib ''x'' v (JObj (without_key ''anyOf'' ?kvs)) = Inr []"
    if "v \<noteq> JNull" for v
    using that by (simp add: without_key_def validate_property_untyped check_any_of_absent)
  have s_arr: "validate_property example_lib ''x'' (JArr []) (?subs ! 0)
               = Inr ([[''Property x should be a string''], [''Property x should be a number'']] ! 0)"
    by (simp add: validate_property_string check_string_def check_any_of_absent)
  have i_arr: "validate_property example_lib ''x'' (JArr []) (?subs ! 1)
               = Inr ([[''Property x should be a string''], [''Property x should be a number'']] ! 1)"
    by (simp add: validate_property_number check_number_def check_any_of_absent)
  have s_int: "validate_property example_lib ''x'' (JInt 5) (?subs ! 0)
               = Inr [''Property x should be a string'']"
    by (simp add: validate_property_string check_string_def check_any_of_absent)
  have i_int: "validate_property example_lib ''x'' (JInt 5) (?subs ! 1) = Inr []"
    by (simp add: validate_property_number check_number_def bound_check_def check_any_of_absent)
  have all_fail: "\<forall>i < length ?subs.
      validate_property example_lib ''x'' (JArr []) (?subs ! i)
        = Inr ([[''Property x should be a string''], [''Property x should be a number'']] ! i)
      \<and> [[''Property x should be a string''], [''Property x should be a number'']] ! i \<noteq> []"
  proof (intro allI impI)
    fix i assume "i < length ?subs"
    then consider "i = 0" | "i = 1" by fastforce
    then show "validate_property example_lib ''x'' (JArr []) (?subs ! i)
        = Inr ([[''Property x should be a string''], [''Property x should be a number'']] ! i)
      \<and> [[''Property x should be a string''], [''Property x should be a number'']] ! i \<noteq> []"
    proof cases
      case 1
      show ?thesis unfolding 1 using s_arr by simp
    next
      case 2
      show ?thesis unfolding 2 using i_arr by simp
    qed
  qed
  have nn_arr: "JArr [] \<noteq> JNull" and nn_int: "JInt 5 \<noteq> JNull"
    by simp_all
  note sem_arr = any_of_semantics [OF nn_arr any plain [OF nn_arr]]
  note sem_int = any_of_semantics [OF nn_int any plain [OF nn_int]]
  have "validate_property example_lib ''x'' (JArr []) (JObj ?kvs)
        = Inr ([] @ [''Property '' @ ''x'' @ '' does not match any allowed schemas'']
               @ map (\<lambda>err. ''  - '' @ err)
                   (concat [[''Property x should be a string''], [''Property x should be a number'']]))"
  proof (rule mp [OF spec [OF conjunct2 [OF sem_arr]]], intro conjI)
    show "length [[''Property x should be a string''], [''Property x should be a number'']]
          = length ?subs" by simp
    show "\<forall>i < length ?subs.
      validate_property example_lib ''x'' (JArr []) (?subs ! i)
        = Inr ([[''Property x should be a string''], [''Property x should be a number'']] ! i)
      \<and> [[''Property x should be a string''], [''Property x should be a number'']] ! i \<noteq> []"
      by (rule all_fail)
  qed
  then have fail: "validate_property example_lib ''x'' (JArr []) (JObj ?kvs)
        = Inr [''Property x does not match any allowed schemas'',
               ''  - Property x should be a string'',
               ''  - Property x should be a number'']"
    by simp
  have ok: "validate_property example_lib ''x'' (JInt 5) (JObj ?kvs) = Inr []"
  proof (rule mp [OF spec [OF conjunct1 [OF sem_int]], of 1], intro conjI)
    show "1 < length ?subs" by simp
    show "validate_property example_lib ''x'' (JInt 5) (?subs ! 1) = Inr []"
      by (rule i_int)
    show "\<forall>i < 1. \<exists>e. validate_property example_lib ''x'' (JInt 5) (?subs ! i) = Inr e
                                 \<and> e \<noteq> []"
      using s_int by simp
  qed
  from any fail ok show ?thesis by simp
qed

text \<open>
  C1, the example of the spec. It does not hold on the code: \<^verbatim>\<open>True\<close> passes the alternative
  \<^verbatim>\<open>{type: "integer"}\<close>, because \<^verbatim>\<open>isinstance(True, (int, float))\<close> and
  \<^verbatim>\<open>isinstance(True, int)\<close> hold, so the result is the empty list and not the summary
  with two type errors.
\<close>

theorem any_of_boolean_passes_integer:
  "validate_property example_lib ''x'' (JBool True)
     (JObj [(''anyOf'', JArr [JObj [(''type'', JStr ''string'')],
                              JObj [(''type'', JStr ''integer'')]])])
   = Inr []"
  by (simp add: validate_property_untyped check_any_of_list validate_property_string
        validate_property_number check_string_def check_number_def bound_check_def
        check_any_of_absent)

text \<open>
  C2, with null set apart. For a fragment with neither a \<^verbatim>\<open>type\<close> key nor an \<^verbatim>\<open>anyOf\<close>
  key, every value other than null returns the empty list. Null is decided by the null
  rule, which comes first: the empty list when the fragment is nullable, and the one error
  that the property cannot be null otherwise.
\<close>

theorem permissive_default:
  assumes "map_of kvs ''type'' = None" and "map_of kvs ''anyOf'' = None"
  shows "validate_property lib name v (JObj kvs) =
           Inr (if v = JNull \<and> \<not> (case map_of kvs ''nullable'' of None \<Rightarrow> False | Some n \<Rightarrow> truthy n)
                then [''Property '' @ name @ '' cannot be null''] else [])"
  using assms
  by (cases "v = JNull")
     (simp_all add: validate_property_null validate_property_untyped check_any_of_absent)

text \<open>
  The theorem at a fragment that only carries a description, for the value 5.
\<close>

theorem permissive_default_witness:
  "map_of [(''description'', JStr ''free'')] ''type'' = None
   \<and> map_of [(''description'', JStr ''free'')] ''anyOf'' = None
   \<and> validate_property example_lib ''x'' (JInt 5) (JObj [(''description'', JStr ''free'')]) = Inr []"
  using permissive_default [of "[(''description'', JStr ''free'')]" example_lib "''x''" "JInt 5"]
  by simp

text \<open>
  C2 with null, which the claim includes: on the empty fragment null returns one error.
\<close>

theorem permissive_default_null_counterexample:
  "validate_property example_lib ''x'' JNull (JObj []) = Inr [''Property x cannot be null'']"
  by (simp add: validate_property_null)

text \<open>
  C3. For every fragment, validating null returns the empty list when the fragment has
  a truthy \<^verbatim>\<open>nullable\<close> entry, and otherwise exactly the one error that the property
  cannot be null. The result depends on no other key of the fragment: no type, format,
  length, range, object, array or anyOf check runs.
\<close>

theorem null_handling:
  "validate_property lib name JNull (JObj kvs) =
     Inr (if (case map_of kvs ''nullable'' of None \<Rightarrow> False | Some n \<Rightarrow> truthy n)
          then [] else [''Property '' @ name @ '' cannot be null''])"
  by (rule validate_property_null)

text \<open>
  The theorem at the two examples of the spec.
\<close>

theorem null_handling_witness:
  "validate_property example_lib ''x'' JNull
     (JObj [(''type'', JStr ''string''), (''nullable'', JBool True)]) = Inr []
   \<and> validate_property example_lib ''x'' JNull (JObj [(''type'', JStr ''string'')])
     = Inr [''Property x cannot be null'']"
  using null_handling [of example_lib "''x''" "[(''type'', JStr ''string''), (''nullable'', JBool True)]"]
        null_handling [of example_lib "''x''" "[(''type'', JStr ''string'')]"]
  by simp

text \<open>
  C4. Against a fragment of type \<^verbatim>\<open>integer\<close>, every float value gets the error that
  the property should be an integer whenever the validation returns, whatever the value
  of the float (also a whole one such as 3.0), and the validation does return on the
  supported schemas. A value of type \<^verbatim>\<open>int\<close> never gets that error.
\<close>

theorem integer_strictness:
  assumes "map_of kvs ''type'' = Some (JStr ''integer'')"
  shows "(\<forall>errs. validate_property lib name (JFloat f) (JObj kvs) = Inr errs
            \<longrightarrow> ''Property '' @ name @ '' should be an integer'' \<in> set errs)
       \<and> (wf_schema (JObj kvs)
            \<longrightarrow> (\<exists>errs. validate_property lib name (JFloat f) (JObj kvs) = Inr errs))
       \<and> (\<forall>v errs. is_int v \<longrightarrow> validate_property lib name v (JObj kvs) = Inr errs
            \<longrightarrow> ''Property '' @ name @ '' should be an integer'' \<notin> set errs)"
proof (intro conjI allI impI)
  fix errs
  assume "validate_property lib name (JFloat f) (JObj kvs) = Inr errs"
  with assms obtain out where
    out: "check_number lib name (JFloat f) (JStr ''integer'') kvs = Inr out" and
    any: "check_any_of lib name (JFloat f) kvs out = Inr errs"
    by (auto simp: validate_property_number bindE_eq_Inr)
  from check_any_of_keeps [OF any] check_number_float_integer [OF out]
  show "''Property '' @ name @ '' should be an integer'' \<in> set errs"
    by blast
next
  assume "wf_schema (JObj kvs)"
  then show "\<exists>errs. validate_property lib name (JFloat f) (JObj kvs) = Inr errs"
    using returns_validate_property [of "JObj kvs" lib name "JFloat f"] by (simp add: returns_iff)
next
  fix v errs
  assume v: "is_int v" and r: "validate_property lib name v (JObj kvs) = Inr errs"
  from v have "v \<noteq> JNull" by auto
  with assms r obtain out where
    out: "check_number lib name v (JStr ''integer'') kvs = Inr out" and
    any: "check_any_of lib name v kvs out = Inr errs"
    by (auto simp: validate_property_number bindE_eq_Inr)
  show "''Property '' @ name @ '' should be an integer'' \<notin> set errs"
  proof
    assume "''Property '' @ name @ '' should be an integer'' \<in> set errs"
    from check_any_of_mem [OF any this]
    have "''Property '' @ name @ '' should be an integer'' \<in> set out" by simp
    from check_number_int_shape [OF out v this] show False by simp
  qed
qed

text \<open>
  The theorem at \<^verbatim>\<open>{type: "integer"}\<close>: the float 3.0 gets the error, the integer 3
  does not.
\<close>

theorem integer_strictness_witness:
  "map_of [(''type'', JStr ''integer'')] ''type'' = Some (JStr ''integer'')
   \<and> validate_property example_lib ''x'' (JFloat (Finite 3)) (JObj [(''type'', JStr ''integer'')])
       = Inr [''Property x should be an integer'']
   \<and> validate_property example_lib ''x'' (JInt 3) (JObj [(''type'', JStr ''integer'')]) = Inr []"
proof -
  have t: "map_of [(''type'', JStr ''integer'')] ''type'' = Some (JStr ''integer'')"
    by simp
  have wf: "wf_schema (JObj [(''type'', JStr ''integer'')])"
    by (simp add: bound_ok_def)
  note inst = integer_strictness [OF t, of example_lib "''x''" "Finite 3"]
  from inst wf obtain errs where
    errs: "validate_property example_lib ''x'' (JFloat (Finite 3)) (JObj [(''type'', JStr ''integer'')])
           = Inr errs" by blast
  with inst have "''Property '' @ ''x'' @ '' should be an integer'' \<in> set errs" by blast
  moreover have "validate_property example_lib ''x'' (JFloat (Finite 3))
                   (JObj [(''type'', JStr ''integer'')]) = Inr [''Property x should be an integer'']"
    by (simp add: validate_property_number check_number_def bound_check_def check_any_of_absent)
  moreover have "validate_property example_lib ''x'' (JInt 3) (JObj [(''type'', JStr ''integer'')])
                 = Inr []"
    by (simp add: validate_property_number check_number_def bound_check_def check_any_of_absent)
  ultimately show ?thesis by simp
qed

text \<open>
  C5. For every boolean \<open>b\<close> and every fragment of type \<^verbatim>\<open>integer\<close> or
  \<^verbatim>\<open>number\<close>: no result holds the error that the property should be a number or
  that it should be an integer, and the validation returns on the supported schemas; the
  numeric branch treats \<open>b\<close> as the integer 1 or 0, so without alternatives the
  result is that of the integer, bounds included. In particular \<^verbatim>\<open>True\<close> against
  \<^verbatim>\<open>{type: "integer"}\<close> gives the empty list. Conversely an integer, 0 and 1
  included, against a fragment of type \<^verbatim>\<open>boolean\<close> gets the error that the property
  should be a boolean.
\<close>

theorem booleans_count_as_numbers:
  assumes "map_of kvs ''type'' = Some st" and "st = JStr ''integer'' \<or> st = JStr ''number''"
  shows "(\<forall>errs. validate_property lib name (JBool b) (JObj kvs) = Inr errs
            \<longrightarrow> ''Property '' @ name @ '' should be a number'' \<notin> set errs
              \<and> ''Property '' @ name @ '' should be an integer'' \<notin> set errs)
       \<and> (wf_schema (JObj kvs)
            \<longrightarrow> (\<exists>errs. validate_property lib name (JBool b) (JObj kvs) = Inr errs))
       \<and> check_number lib name (JBool b) st kvs
           = check_number lib name (JInt (if b then 1 else 0)) st kvs
       \<and> (map_of kvs ''anyOf'' = None
            \<longrightarrow> validate_property lib name (JBool b) (JObj kvs)
                = validate_property lib name (JInt (if b then 1 else 0)) (JObj kvs))
       \<and> validate_property lib name (JBool True) (JObj [(''type'', JStr ''integer'')]) = Inr []
       \<and> (\<forall>i kvs' errs. map_of kvs' ''type'' = Some (JStr ''boolean'')
            \<longrightarrow> validate_property lib name (JInt i) (JObj kvs') = Inr errs
            \<longrightarrow> ''Property '' @ name @ '' should be a boolean'' \<in> set errs)
       \<and> validate_property lib name (JInt 0) (JObj [(''type'', JStr ''boolean'')])
           = Inr [''Property '' @ name @ '' should be a boolean'']
       \<and> validate_property lib name (JInt 1) (JObj [(''type'', JStr ''boolean'')])
           = Inr [''Property '' @ name @ '' should be a boolean'']"
proof (intro conjI allI impI)
  fix errs
  assume r: "validate_property lib name (JBool b) (JObj kvs) = Inr errs"
  from assms(2) have st: "st = JStr ''number'' \<or> st = JStr ''integer''" by blast
  with assms(1) r obtain out where
    out: "check_number lib name (JBool b) st kvs = Inr out" and
    any: "check_any_of lib name (JBool b) kvs out = Inr errs"
    by (auto simp: validate_property_number bindE_eq_Inr)
  have int: "is_int (JBool b)" by simp
  show "''Property '' @ name @ '' should be a number'' \<notin> set errs"
  proof
    assume "''Property '' @ name @ '' should be a number'' \<in> set errs"
    from check_any_of_mem [OF any this]
    have "''Property '' @ name @ '' should be a number'' \<in> set out" by simp
    from check_number_int_shape [OF out int this] show False by simp
  qed
  show "''Property '' @ name @ '' should be an integer'' \<notin> set errs"
  proof
    assume "''Property '' @ name @ '' should be an integer'' \<in> set errs"
    from check_any_of_mem [OF any this]
    have "''Property '' @ name @ '' should be an integer'' \<in> set out" by simp
    from check_number_int_shape [OF out int this] show False by simp
  qed
next
  assume "wf_schema (JObj kvs)"
  then show "\<exists>errs. validate_property lib name (JBool b) (JObj kvs) = Inr errs"
    using returns_validate_property [of "JObj kvs" lib name "JBool b"] by (simp add: returns_iff)
next
  show "check_number lib name (JBool b) st kvs
        = check_number lib name (JInt (if b then 1 else 0)) st kvs"
    by (rule check_number_bool)
next
  assume none: "map_of kvs ''anyOf'' = None"
  from assms(2) have st: "st = JStr ''number'' \<or> st = JStr ''integer''" by blast
  have "validate_property lib name (JBool b) (JObj kvs) = check_number lib name (JBool b) st kvs"
    by (simp add: validate_property_number [OF _ assms(1) st] check_any_of_absent_fun [OF none])
  moreover have "validate_property lib name (JInt (if b then 1 else 0)) (JObj kvs)
                 = check_number lib name (JInt (if b then 1 else 0)) st kvs"
    by (simp add: validate_property_number [OF _ assms(1) st] check_any_of_absent_fun [OF none])
  ultimately show "validate_property lib name (JBool b) (JObj kvs)
                = validate_property lib name (JInt (if b then 1 else 0)) (JObj kvs)"
    by (simp only: check_number_bool)
next
  show "validate_property lib name (JBool True) (JObj [(''type'', JStr ''integer'')]) = Inr []"
    by (simp add: validate_property_number check_number_def bound_check_def check_any_of_absent)
next
  fix i kvs' errs
  assume t: "map_of kvs' ''type'' = Some (JStr ''boolean'')"
     and r: "validate_property lib name (JInt i) (JObj kvs') = Inr errs"
  then have "check_any_of lib name (JInt i) kvs' [''Property '' @ name @ '' should be a boolean'']
             = Inr errs"
    by (simp add: validate_property_boolean check_boolean_not_bool)
  from check_any_of_keeps [OF this]
  show "''Property '' @ name @ '' should be a boolean'' \<in> set errs" by simp
next
  show "validate_property lib name (JInt 0) (JObj [(''type'', JStr ''boolean'')])
           = Inr [''Property '' @ name @ '' should be a boolean'']"
    by (simp add: validate_property_boolean check_boolean_not_bool check_any_of_absent)
next
  show "validate_property lib name (JInt 1) (JObj [(''type'', JStr ''boolean'')])
           = Inr [''Property '' @ name @ '' should be a boolean'']"
    by (simp add: validate_property_boolean check_boolean_not_bool check_any_of_absent)
qed

text \<open>
  The theorem at \<^verbatim>\<open>{type: "integer", minimum: 1}\<close>: \<^verbatim>\<open>False\<close> is compared as 0
  and is too small.
\<close>

theorem booleans_count_as_numbers_witness:
  "map_of [(''type'', JStr ''integer''), (''minimum'', JInt 1)] ''type'' = Some (JStr ''integer'')
   \<and> validate_property example_lib ''x'' (JBool True) (JObj [(''type'', JStr ''integer'')]) = Inr []
   \<and> validate_property example_lib ''x'' (JBool False)
        (JObj [(''type'', JStr ''integer''), (''minimum'', JInt 1)])
       = Inr [''Property x is too small (min: 1)'']
   \<and> validate_property example_lib ''x'' (JInt 1) (JObj [(''type'', JStr ''boolean'')])
       = Inr [''Property x should be a boolean'']"
proof -
  let ?kvs = "[(''type'', JStr ''integer''), (''minimum'', JInt 1)]"
  have t: "map_of ?kvs ''type'' = Some (JStr ''integer'')" by simp
  note inst = booleans_count_as_numbers [OF t, of example_lib "''x''" False]
  have zero: "validate_property example_lib ''x'' (JInt 0) (JObj ?kvs)
              = Inr [''Property x is too small (min: 1)'']"
    by (simp add: validate_property_number check_number_def bound_check_def num_lt_def num_gt_def
          check_any_of_absent str_int_def)
  from inst have "map_of ?kvs ''anyOf'' = None
      \<longrightarrow> validate_property example_lib ''x'' (JBool False) (JObj ?kvs)
        = validate_property example_lib ''x'' (JInt (if False then 1 else 0)) (JObj ?kvs)"
    by blast
  with zero have low: "validate_property example_lib ''x'' (JBool False) (JObj ?kvs)
              = Inr [''Property x is too small (min: 1)'']"
    by simp
  from inst have "validate_property example_lib ''x'' (JBool True) (JObj [(''type'', JStr ''integer'')])
                  = Inr []"
    and "validate_property example_lib ''x'' (JInt 1) (JObj [(''type'', JStr ''boolean'')])
          = Inr [''Property '' @ ''x'' @ '' should be a boolean'']"
    by blast+
  with t low show ?thesis by simp
qed









text \<open>
  C10, for object responses. The recursive validation returns for every JSON value, of any type,
  and every fragment of the supported dialect: violations are strings of the result and
  never exceptions. The entry point \<open>validate_response\<close> returns for every JSON
  object and every such schema, and nothing found is lost: each required name that is
  absent from the object is reported, and every error that the validation of a declared,
  present property returns is part of the result.
\<close>

theorem validate_response_total:
  assumes wf: "wf_schema (JObj kvs)"
  shows "(\<forall>name v. \<exists>errs. validate_property lib name v (JObj kvs) = Inr errs) \<and>
         (\<exists>errs. validate_response lib (JObj members) (JObj kvs) = Inr errs
            \<and> (\<forall>rs r. map_of kvs ''required'' = Some (JArr rs) \<longrightarrow> JStr r \<in> set rs
                   \<longrightarrow> map_of members r = None
                   \<longrightarrow> ''Missing required property: '' @ r \<in> set errs)
            \<and> (\<forall>props pn spec v es. map_of kvs ''properties'' = Some (JObj props)
                   \<longrightarrow> (pn, spec) \<in> set props \<longrightarrow> map_of members pn = Some v
                   \<longrightarrow> validate_property lib pn v spec = Inr es
                   \<longrightarrow> set es \<subseteq> set errs))"
proof (intro conjI allI)
  show "\<exists>errs. validate_property lib name v (JObj kvs) = Inr errs" for name v
    using returns_validate_property [OF wf] by (simp add: returns_iff)
next
  define required where "required = (case map_of kvs ''required'' of None \<Rightarrow> JArr [] | Some v \<Rightarrow> v)"
  define properties where
    "properties = (case map_of kvs ''properties'' of None \<Rightarrow> JObj [] | Some v \<Rightarrow> v)"
  define f where "f = (\<lambda>prop.
      bindE (py_in prop (JObj members)) (\<lambda>present.
      Inr (if \<not> present then [''Missing required property: '' @ py_str lib prop] else [])))"
  define g where "g = (\<lambda>(prop_name, prop_spec).
      bindE (py_in (JStr prop_name) (JObj members)) (\<lambda>present.
      if present
      then bindE (py_getitem (JObj members) prop_name) (\<lambda>v.
             validate_property lib prop_name v prop_spec)
      else Inr []))"
  obtain rs where rs: "required = JArr rs" "\<forall>r \<in> set rs. is_str r"
    using wf_schema_required [OF wf] unfolding required_def
    by (cases "map_of kvs ''required''") auto
  obtain props where props: "properties = JObj props" "\<forall>p \<in> set props. wf_schema (snd p)"
    using wf_schema_properties [OF wf] unfolding properties_def
    by (cases "map_of kvs ''properties''") auto
  have "returns (collect f rs)"
    using rs(2) by (intro returns_collect) (auto simp: f_def returns_bindE is_str_iff)
  then obtain missing where missing: "collect f rs = Inr missing"
    by (auto simp: returns_iff)
  have "returns (collect g props)"
  proof (rule returns_collect)
    fix p assume p: "p \<in> set props"
    obtain k spec where ks: "p = (k, spec)" by (cases p)
    from p props(2) ks have "wf_schema spec" by auto
    then have "returns (validate_property lib n v spec)" for n v
      by (rule returns_validate_property)
    then show "returns (g p)"
      by (auto simp: g_def ks returns_bindE key_in_dict)
  qed
  then obtain prop_errors where prop_errors: "collect g props = Inr prop_errors"
    by (auto simp: returns_iff)
  have result: "validate_response lib (JObj members) (JObj kvs) = Inr (missing @ prop_errors)"
    using missing prop_errors rs(1) props(1)
    by (simp add: validate_response_def bindE_def required_def properties_def f_def g_def)
  have miss: "''Missing required property: '' @ r \<in> set (missing @ prop_errors)"
    if "map_of kvs ''required'' = Some (JArr rs')" "JStr r \<in> set rs'" "map_of members r = None"
    for rs' r
  proof -
    from that(1) rs(1) have "rs' = rs" by (simp add: required_def)
    with that(2) have "JStr r \<in> set rs" by simp
    from collect_Inr_elem [OF missing this] obtain e where "f (JStr r) = Inr e" "set e \<subseteq> set missing"
      by blast
    with that(3) show ?thesis
      by (auto simp: f_def bindE_def key_in_dict)
  qed
  have found: "set es \<subseteq> set (missing @ prop_errors)"
    if "map_of kvs ''properties'' = Some (JObj props')" "(pn, spec) \<in> set props'"
       "map_of members pn = Some v" "validate_property lib pn v spec = Inr es"
    for props' pn spec v es
  proof -
    from that(1) props(1) have "props' = props" by (simp add: properties_def)
    with that(2) have "(pn, spec) \<in> set props" by simp
    from collect_Inr_elem [OF prop_errors this] obtain e
      where "g (pn, spec) = Inr e" "set e \<subseteq> set prop_errors" by blast
    with that(3,4) show ?thesis
      by (auto simp: g_def bindE_def key_in_dict)
  qed
  show "\<exists>errs. validate_response lib (JObj members) (JObj kvs) = Inr errs
            \<and> (\<forall>rs r. map_of kvs ''required'' = Some (JArr rs) \<longrightarrow> JStr r \<in> set rs
                   \<longrightarrow> map_of members r = None
                   \<longrightarrow> ''Missing required property: '' @ r \<in> set errs)
            \<and> (\<forall>props pn spec v es. map_of kvs ''properties'' = Some (JObj props)
                   \<longrightarrow> (pn, spec) \<in> set props \<longrightarrow> map_of members pn = Some v
                   \<longrightarrow> validate_property lib pn v spec = Inr es
                   \<longrightarrow> set es \<subseteq> set errs)"
    using result miss found by blast
qed

text \<open>
  The theorem at a schema with two required names and one typed property, and an object
  that lacks one name and has a string where a number is declared.
\<close>

theorem validate_response_total_witness:
  "wf_schema (JObj [(''required'', JArr [JStr ''id'', JStr ''name'']),
                    (''properties'', JObj [(''id'', JObj [(''type'', JStr ''integer'')])])])
   \<and> (\<exists>errs. validate_response example_lib (JObj [(''id'', JStr ''7'')])
                 (JObj [(''required'', JArr [JStr ''id'', JStr ''name'']),
                        (''properties'', JObj [(''id'', JObj [(''type'', JStr ''integer'')])])])
               = Inr errs
             \<and> ''Missing required property: name'' \<in> set errs
             \<and> ''Property id should be a number'' \<in> set errs)"
proof -
  let ?kvs = "[(''required'', JArr [JStr ''id'', JStr ''name'']),
               (''properties'', JObj [(''id'', JObj [(''type'', JStr ''integer'')])])]"
  have wf: "wf_schema (JObj ?kvs)"
    by (simp add: bound_ok_def)
  have sub: "validate_property example_lib ''id'' (JStr ''7'') (JObj [(''type'', JStr ''integer'')])
             = Inr [''Property id should be a number'']"
    by (simp add: validate_property.simps check_any_of.simps check_number_def bindE_def)
  from validate_response_total [OF wf, of example_lib "[(''id'', JStr ''7'')]"]
  obtain errs where
    r: "validate_response example_lib (JObj [(''id'', JStr ''7'')]) (JObj ?kvs) = Inr errs" and
    m: "\<And>rs r. map_of ?kvs ''required'' = Some (JArr rs) \<Longrightarrow> JStr r \<in> set rs
           \<Longrightarrow> map_of [(''id'', JStr ''7'')] r = None
           \<Longrightarrow> ''Missing required property: '' @ r \<in> set errs" and
    f: "\<And>props pn spec v es. map_of ?kvs ''properties'' = Some (JObj props)
           \<Longrightarrow> (pn, spec) \<in> set props \<Longrightarrow> map_of [(''id'', JStr ''7'')] pn = Some v
           \<Longrightarrow> validate_property example_lib pn v spec = Inr es \<Longrightarrow> set es \<subseteq> set errs"
    by blast
  have "''Missing required property: '' @ ''name'' \<in> set errs"
    by (rule m [of "[JStr ''id'', JStr ''name'']"]) simp_all
  moreover have "set [''Property id should be a number''] \<subseteq> set errs"
    by (rule f [of "[(''id'', JObj [(''type'', JStr ''integer'')])]" "''id''"
                   "JObj [(''type'', JStr ''integer'')]" "JStr ''7''"])
       (simp_all add: sub)
  ultimately show ?thesis
    using wf r by simp
qed

text \<open>
  C10 with a top-level value that is not an object, which the claim includes: with a required
  name in the schema, \<^verbatim>\<open>prop not in response\<close> raises \<^verbatim>\<open>TypeError\<close> on the
  integer 5.
\<close>

theorem validate_response_non_object_raises:
  "validate_response example_lib (JInt 5) (JObj [(''required'', JArr [JStr ''id''])])
   = Inl TypeError"
  by (simp add: validate_response_def bindE_def)

end
